theory Spec2Isabelle
  imports Complex_Main "HOL-Library.Multiset"
begin

section \<open>Memory model\<close>

text \<open>
  Source: \<^verbatim>\<open>lib/vhf/nr_incore_o0.c\<close>.  A \<^verbatim>\<open>double *\<close> is modelled as a function
  from the offset (counted in doubles from the pointer) to the value stored there, and
  \<^verbatim>\<open>double\<close> arithmetic is exact: a \<^verbatim>\<open>double\<close> is a \<^typ>\<open>real\<close>.  All indices
  are C \<^verbatim>\<open>int\<close>s that the kernels' contract keeps non-negative; they are \<^typ>\<open>nat\<close>.
  The \<^verbatim>\<open>eri\<close> and \<^verbatim>\<open>dm\<close> buffers are only read, the accumulator is only updated by
  \<^verbatim>\<open>+=\<close>, and the accumulator never aliases \<^verbatim>\<open>eri\<close> or \<^verbatim>\<open>dm\<close> (the drivers
  allocate it themselves).
\<close>

type_synonym darray = "nat \<Rightarrow> real"

type_synonym kernel = "darray \<Rightarrow> darray \<Rightarrow> darray \<Rightarrow> nat \<Rightarrow> nat \<Rightarrow> nat \<Rightarrow> darray"

text \<open>\<^verbatim>\<open>eri + off\<close>\<close>

definition ptr_add :: "darray \<Rightarrow> nat \<Rightarrow> darray" where
  "ptr_add a off = (\<lambda>p. a (off + p))"

text \<open>\<^verbatim>\<open>v[p] += x;\<close>\<close>

definition acc :: "nat \<Rightarrow> real \<Rightarrow> darray \<Rightarrow> darray" where
  "acc p x v = v(p := v p + x)"

text \<open>A block of consecutive \<^verbatim>\<open>v[p] += x;\<close> statements, executed first to last.\<close>

primrec accs :: "(nat \<times> real) list \<Rightarrow> darray \<Rightarrow> darray" where
  "accs [] v = v"
| "accs (u # us) v = accs us (acc (fst u) (snd u) v)"

text \<open>\<^verbatim>\<open>memset(v, 0, sizeof(double)*m)\<close>\<close>

definition memset0 :: "darray \<Rightarrow> nat \<Rightarrow> darray" where
  "memset0 v m = (\<lambda>p. if p < m then 0 else v p)"

text \<open>A buffer fresh from \<^verbatim>\<open>malloc\<close> and cleared by \<^verbatim>\<open>memset\<close>.\<close>

definition zeros :: darray where
  "zeros = (\<lambda>p. 0)"

text \<open>
  The BLAS routine \<^verbatim>\<open>ddot_(&n, x, &incx, y, &incy)\<close> (an external library, declared
  in \<^verbatim>\<open>fblas.h\<close>): the dot product of two strided vectors, by its reference loop.
\<close>

definition ddot :: "nat \<Rightarrow> darray \<Rightarrow> nat \<Rightarrow> darray \<Rightarrow> nat \<Rightarrow> real" where
  "ddot n x incx y incy = fold (\<lambda>i s. s + x (i * incx) * y (i * incy)) [0..<n] 0"

section \<open>J kernels\<close>

text \<open>
  Loops that advance a counter (\<^verbatim>\<open>ij++\<close>, \<^verbatim>\<open>kl++\<close>, \<^verbatim>\<open>eri += k+1\<close>) next to the
  accumulator carry the pair (counter, accumulator) as their state.  An early
  \<^verbatim>\<open>return\<close> is the \<open>None\<close> branch of the case that selects \<^verbatim>\<open>dm_ij\<close>.
\<close>

definition CVHFnrs8_ij_s2kl_o0 :: kernel where
  "CVHFnrs8_ij_s2kl_o0 eri dm vj nao ic jc =
    (let vj_ij = ic * nao + jc in
     case (if ic > jc then Some (dm (ic * nao + jc) + dm (jc * nao + ic))
           else if ic = jc then Some (dm (ic * nao + ic))
           else None) of
       None \<Rightarrow> vj
     | Some dm_ij \<Rightarrow>
       let (ij, vj) = fold (\<lambda>i (ij, vj).
               let (ij, vj) = fold (\<lambda>j (ij, vj).
                     (ij + 1, accs [(vj_ij, eri ij * (dm (i * nao + j) + dm (j * nao + i))),
                                    (i * nao + j, eri ij * dm_ij)] vj))
                   [0..<i] (ij, vj)
               in (ij + 1, accs [(vj_ij, eri ij * dm (i * nao + i)),
                                 (i * nao + i, eri ij * dm_ij)] vj))
             [0..<ic] (0, vj);
           i = ic;
           (ij, vj) = fold (\<lambda>j (ij, vj).
               (ij + 1, accs [(vj_ij, eri ij * (dm (i * nao + j) + dm (j * nao + i))),
                              (i * nao + j, eri ij * dm_ij)] vj))
             [0..<jc] (ij, vj)
       in acc vj_ij (eri ij * dm_ij) vj)"

definition CVHFnrs4_ij_s2kl_o0 :: kernel where
  "CVHFnrs4_ij_s2kl_o0 eri dm vj nao ic jc =
    (case (if ic > jc then Some (dm (ic * nao + jc) + dm (jc * nao + ic))
           else if ic = jc then Some (dm (ic * nao + ic))
           else None) of
       None \<Rightarrow> vj
     | Some dm_ij \<Rightarrow>
       let (ij, vj) = fold (\<lambda>i (ij, vj).
               fold (\<lambda>j (ij, vj). (ij + 1, acc (i * nao + j) (eri ij * dm_ij) vj))
                 [0..<i + 1] (ij, vj))
             [0..<nao] (0, vj)
       in vj)"

definition CVHFnrs2kl_kl_s1ij_o0 :: kernel where
  "CVHFnrs2kl_kl_s1ij_o0 eri dm vj nao ic jc =
    (let vj_ij = ic * nao + jc;
         (ij, vj) = fold (\<lambda>i (ij, vj).
             let (ij, vj) = fold (\<lambda>j (ij, vj).
                   (ij + 1, acc vj_ij (eri ij * (dm (i * nao + j) + dm (j * nao + i))) vj))
                 [0..<i] (ij, vj)
             in (ij + 1, acc vj_ij (eri ij * dm (i * nao + i)) vj))
           [0..<nao] (0, vj)
     in vj)"

section \<open>K kernels\<close>

definition CVHFnrs8_jk_s1il_o0 :: kernel where
  "CVHFnrs8_jk_s1il_o0 eri dm vk nao ic jc =
    (if ic > jc then
       let (kl, vk) = fold (\<lambda>k (kl, vk).
               let (kl, vk) = fold (\<lambda>l (kl, vk).
                     (kl + 1, accs [(jc * nao + l, eri kl * dm (ic * nao + k)),
                                    (ic * nao + l, eri kl * dm (jc * nao + k)),
                                    (jc * nao + k, eri kl * dm (ic * nao + l)),
                                    (ic * nao + k, eri kl * dm (jc * nao + l)),
                                    (l * nao + jc, eri kl * dm (k * nao + ic)),
                                    (k * nao + jc, eri kl * dm (l * nao + ic)),
                                    (l * nao + ic, eri kl * dm (k * nao + jc)),
                                    (k * nao + ic, eri kl * dm (l * nao + jc))] vk))
                   [0..<k] (kl, vk)
               in (kl + 1, accs [(jc * nao + k, eri kl * dm (ic * nao + k)),
                                 (ic * nao + k, eri kl * dm (jc * nao + k)),
                                 (k * nao + jc, eri kl * dm (k * nao + ic)),
                                 (k * nao + ic, eri kl * dm (k * nao + jc))] vk))
             [0..<ic] (0, vk);
           k = ic;
           (kl, vk) = fold (\<lambda>l (kl, vk).
               (kl + 1, accs [(jc * nao + l, eri kl * dm (ic * nao + k)),
                              (ic * nao + l, eri kl * dm (jc * nao + k)),
                              (jc * nao + k, eri kl * dm (ic * nao + l)),
                              (ic * nao + k, eri kl * dm (jc * nao + l)),
                              (l * nao + jc, eri kl * dm (k * nao + ic)),
                              (k * nao + jc, eri kl * dm (l * nao + ic)),
                              (l * nao + ic, eri kl * dm (k * nao + jc)),
                              (k * nao + ic, eri kl * dm (l * nao + jc))] vk))
             [0..<jc] (kl, vk)
       in accs [(jc * nao + jc, eri kl * dm (ic * nao + ic)),
                (ic * nao + jc, eri kl * dm (jc * nao + ic)),
                (jc * nao + ic, eri kl * dm (ic * nao + jc)),
                (ic * nao + ic, eri kl * dm (jc * nao + jc))] vk
     else if ic = jc then
       let (kl, vk) = fold (\<lambda>k (kl, vk).
               let (kl, vk) = fold (\<lambda>l (kl, vk).
                     (kl + 1, accs [(ic * nao + l, eri kl * dm (ic * nao + k)),
                                    (ic * nao + k, eri kl * dm (ic * nao + l)),
                                    (l * nao + ic, eri kl * dm (k * nao + ic)),
                                    (k * nao + ic, eri kl * dm (l * nao + ic))] vk))
                   [0..<k] (kl, vk)
               in (kl + 1, accs [(ic * nao + k, eri kl * dm (ic * nao + k)),
                                 (k * nao + ic, eri kl * dm (k * nao + ic))] vk))
             [0..<ic] (0, vk);
           k = ic;
           (kl, vk) = fold (\<lambda>l (kl, vk).
               (kl + 1, accs [(ic * nao + l, eri kl * dm (ic * nao + ic)),
                              (ic * nao + ic, eri kl * dm (ic * nao + l)),
                              (l * nao + ic, eri kl * dm (ic * nao + ic)),
                              (ic * nao + ic, eri kl * dm (l * nao + ic))] vk))
             [0..<k] (kl, vk)
       in acc (ic * nao + ic) (eri kl * dm (ic * nao + ic)) vk
     else vk)"

text \<open>
  The loop \<^verbatim>\<open>for (k = 0; k < ic-1; k+=2)\<close> of \<^verbatim>\<open>CVHFnrs8_jk_s2il_o0\<close>; it returns
  the value of \<^verbatim>\<open>k\<close> on exit, from which the next loop continues.
\<close>

function for_step2 :: "nat \<Rightarrow> nat \<Rightarrow> (nat \<Rightarrow> 's \<Rightarrow> 's) \<Rightarrow> 's \<Rightarrow> nat \<times> 's" where
  "for_step2 k hi body s = (if k < hi then for_step2 (k + 2) hi body (body k s) else (k, s))"
  by pat_completeness auto
termination
  by (relation "measure (\<lambda>(k, hi, body, s). hi - k)") auto

declare for_step2.simps [simp del]

text \<open>
  In \<^verbatim>\<open>CVHFnrs8_jk_s2il_o0\<close> the pointer \<^verbatim>\<open>eri\<close> itself is advanced; the state is
  the pair (distance \<open>e\<close> of the moved pointer from the block start, accumulator), and
  \<^verbatim>\<open>eri[l]\<close> reads \<open>eri (e + l)\<close>.
\<close>

definition CVHFnrs8_jk_s2il_o0 :: kernel where
  "CVHFnrs8_jk_s2il_o0 eri dm vk nao ic jc =
    (if ic > jc then
       let (e, vk) = fold (\<lambda>k (e, vk).
               let vk = fold (\<lambda>l vk.
                     accs [(jc * nao + l, eri (e + l) * dm (ic * nao + k)),
                           (jc * nao + k, eri (e + l) * dm (ic * nao + l)),
                           (ic * nao + l, eri (e + l) * dm (jc * nao + k)),
                           (ic * nao + k, eri (e + l) * dm (jc * nao + l))] vk)
                   [0..<k] vk;
                   vk = accs [(jc * nao + k, eri (e + k) * dm (ic * nao + k)),
                              (ic * nao + k, eri (e + k) * dm (jc * nao + k))] vk
               in (e + (k + 1), vk))
             [0..<jc] (0, vk);
           k = jc;
           vk = fold (\<lambda>l vk.
               accs [(jc * nao + l, eri (e + l) * dm (ic * nao + jc)),
                     (jc * nao + jc, eri (e + l) * (dm (ic * nao + l) + dm (l * nao + ic))),
                     (ic * nao + l, eri (e + l) * dm (jc * nao + jc)),
                     (ic * nao + jc, eri (e + l) * dm (jc * nao + l))] vk)
             [0..<k] vk;
           l = k;
           vk = accs [(jc * nao + jc, eri (e + l) * (dm (ic * nao + jc) + dm (jc * nao + ic))),
                      (ic * nao + jc, eri (e + l) * dm (jc * nao + jc))] vk;
           e = e + (k + 1);
           (e, vk) = fold (\<lambda>k (e, vk).
               let vk = fold (\<lambda>l vk.
                     accs [(jc * nao + l, eri (e + l) * dm (ic * nao + k)),
                           (ic * nao + l, eri (e + l) * dm (jc * nao + k)),
                           (ic * nao + k, eri (e + l) * dm (jc * nao + l)),
                           (k * nao + jc, eri (e + l) * dm (l * nao + ic))] vk)
                   [0..<jc] vk;
                   l = jc;
                   vk = accs [(jc * nao + jc, eri (e + l) * (dm (ic * nao + k) + dm (k * nao + ic))),
                              (ic * nao + jc, eri (e + l) * dm (jc * nao + k)),
                              (ic * nao + k, eri (e + l) * dm (jc * nao + jc)),
                              (k * nao + jc, eri (e + l) * dm (jc * nao + ic))] vk;
                   vk = fold (\<lambda>l vk.
                     accs [(ic * nao + l, eri (e + l) * dm (jc * nao + k)),
                           (ic * nao + k, eri (e + l) * dm (jc * nao + l)),
                           (l * nao + jc, eri (e + l) * dm (k * nao + ic)),
                           (k * nao + jc, eri (e + l) * dm (l * nao + ic))] vk)
                   [jc + 1..<k] vk;
                   l = k;
                   vk = accs [(jc * nao + k, eri (e + l) * dm (ic * nao + k)),
                              (ic * nao + k, eri (e + l) * dm (jc * nao + k)),
                              (k * nao + jc, eri (e + l) * dm (k * nao + ic))] vk
               in (e + (k + 1), vk))
             [jc + 1..<ic] (e, vk);
           vk = fold (\<lambda>l vk.
               accs [(jc * nao + l, eri (e + l) * dm (ic * nao + ic)),
                     (ic * nao + l, eri (e + l) * dm (jc * nao + ic)),
                     (ic * nao + ic, eri (e + l) * (dm (jc * nao + l) + dm (l * nao + jc))),
                     (ic * nao + jc, eri (e + l) * dm (l * nao + ic))] vk)
             [0..<jc] vk;
           l = jc
       in accs [(jc * nao + jc, eri (e + l) * dm (ic * nao + ic)),
                (ic * nao + jc, eri (e + l) * dm (jc * nao + ic)),
                (ic * nao + ic, eri (e + l) * dm (jc * nao + jc))] vk
     else if ic = jc then
       let (k, e, vk) = for_step2 0 (ic - 1) (\<lambda>k (e, vk).
               let vk = fold (\<lambda>l vk.
                     accs [(ic * nao + l, eri (e + l) * dm (ic * nao + k)),
                           (ic * nao + k, eri (e + l) * dm (ic * nao + l)),
                           (ic * nao + l, eri (e + (l + k + 1)) * dm (ic * nao + k + 1)),
                           (ic * nao + k + 1, eri (e + (l + k + 1)) * dm (ic * nao + l))] vk)
                   [0..<k] vk;
                   vk = acc (ic * nao + k) (eri (e + k) * dm (ic * nao + k)) vk;
                   e = e + (k + 1);
                   vk = accs [(ic * nao + k, eri (e + k) * dm (ic * nao + k + 1)),
                              (ic * nao + k + 1, eri (e + k) * dm (ic * nao + k)),
                              (ic * nao + k + 1, eri (e + (k + 1)) * dm (ic * nao + k + 1))] vk
               in (e + (k + 2), vk))
             (0, vk);
           (e, vk) = fold (\<lambda>k (e, vk).
               let vk = fold (\<lambda>l vk.
                     accs [(ic * nao + l, eri (e + l) * dm (ic * nao + k)),
                           (ic * nao + k, eri (e + l) * dm (ic * nao + l))] vk)
                   [0..<k] vk;
                   vk = acc (ic * nao + k) (eri (e + k) * dm (ic * nao + k)) vk
               in (e + (k + 1), vk))
             [k..<ic] (e, vk);
           k = max k ic;
           vk = fold (\<lambda>l vk.
               accs [(ic * nao + l, eri (e + l) * dm (ic * nao + ic)),
                     (ic * nao + ic, eri (e + l) * (dm (ic * nao + l) + dm (l * nao + ic)))] vk)
             [0..<k] vk;
           l = k
       in acc (ic * nao + ic) (eri (e + l) * dm (ic * nao + ic)) vk
     else vk)"

definition CVHFnrs4_jk_s1il_o0 :: kernel where
  "CVHFnrs4_jk_s1il_o0 eri dm vk nao ic jc =
    (if ic > jc then
       let (kl, vk) = fold (\<lambda>k (kl, vk).
               let (kl, vk) = fold (\<lambda>l (kl, vk).
                     (kl + 1, accs [(jc * nao + l, eri kl * dm (ic * nao + k)),
                                    (jc * nao + k, eri kl * dm (ic * nao + l)),
                                    (ic * nao + l, eri kl * dm (jc * nao + k)),
                                    (ic * nao + k, eri kl * dm (jc * nao + l))] vk))
                   [0..<k] (kl, vk)
               in (kl + 1, accs [(jc * nao + k, eri kl * dm (ic * nao + k)),
                                 (ic * nao + k, eri kl * dm (jc * nao + k))] vk))
             [0..<nao] (0, vk)
       in vk
     else if ic = jc then
       let (kl, vk) = fold (\<lambda>k (kl, vk).
               let (kl, vk) = fold (\<lambda>l (kl, vk).
                     (kl + 1, accs [(ic * nao + l, eri kl * dm (ic * nao + k)),
                                    (ic * nao + k, eri kl * dm (ic * nao + l))] vk))
                   [0..<k] (kl, vk)
               in (kl + 1, acc (ic * nao + k) (eri kl * dm (ic * nao + k)) vk))
             [0..<nao] (0, vk)
       in vk
     else vk)"

definition CVHFnrs4_il_s1jk_o0 :: kernel where
  "CVHFnrs4_il_s1jk_o0 eri dm vk nao ic jc = CVHFnrs4_jk_s1il_o0 eri dm vk nao ic jc"

definition CVHFnrs4_jk_s2il_o0 :: kernel where
  "CVHFnrs4_jk_s2il_o0 eri dm vk nao ic jc =
    (if ic > jc then
       let (kl, vk) = fold (\<lambda>k (kl, vk).
               let (kl, vk) = fold (\<lambda>l (kl, vk).
                     (kl + 1, accs [(jc * nao + l, eri kl * dm (ic * nao + k)),
                                    (jc * nao + k, eri kl * dm (ic * nao + l)),
                                    (ic * nao + l, eri kl * dm (jc * nao + k)),
                                    (ic * nao + k, eri kl * dm (jc * nao + l))] vk))
                   [0..<k] (kl, vk)
               in (kl + 1, accs [(jc * nao + k, eri kl * dm (ic * nao + k)),
                                 (ic * nao + k, eri kl * dm (jc * nao + k))] vk))
             [0..<jc + 1] (0, vk);
           (kl, vk) = fold (\<lambda>k (kl, vk).
               let (kl, vk) = fold (\<lambda>l (kl, vk).
                     (kl + 1, accs [(jc * nao + l, eri kl * dm (ic * nao + k)),
                                    (ic * nao + l, eri kl * dm (jc * nao + k)),
                                    (ic * nao + k, eri kl * dm (jc * nao + l))] vk))
                   [0..<jc + 1] (kl, vk);
                   (kl, vk) = fold (\<lambda>l (kl, vk).
                     (kl + 1, accs [(ic * nao + l, eri kl * dm (jc * nao + k)),
                                    (ic * nao + k, eri kl * dm (jc * nao + l))] vk))
                   [jc + 1..<k] (kl, vk)
               in (kl + 1, acc (ic * nao + k) (eri kl * dm (jc * nao + k)) vk))
             [jc + 1..<ic + 1] (kl, vk);
           (kl, vk) = fold (\<lambda>k (kl, vk).
               let (kl, vk) = fold (\<lambda>l (kl, vk).
                     (kl + 1, accs [(jc * nao + l, eri kl * dm (ic * nao + k)),
                                    (ic * nao + l, eri kl * dm (jc * nao + k))] vk))
                   [0..<jc + 1] (k * (k + 1) div 2, vk)
               in fold (\<lambda>l (kl, vk).
                     (kl + 1, acc (ic * nao + l) (eri kl * dm (jc * nao + k)) vk))
                   [jc + 1..<ic + 1] (kl, vk))
             [ic + 1..<nao] (kl, vk)
       in vk
     else if ic = jc then
       let (kl, vk) = fold (\<lambda>k (kl, vk).
               let (kl, vk) = fold (\<lambda>l (kl, vk).
                     (kl + 1, accs [(ic * nao + l, eri kl * dm (ic * nao + k)),
                                    (ic * nao + k, eri kl * dm (ic * nao + l))] vk))
                   [0..<k] (kl, vk)
               in (kl + 1, acc (ic * nao + k) (eri kl * dm (ic * nao + k)) vk))
             [0..<ic + 1] (0, vk);
           (kl, vk) = fold (\<lambda>k (kl, vk).
               fold (\<lambda>l (kl, vk).
                     (kl + 1, acc (ic * nao + l) (eri kl * dm (ic * nao + k)) vk))
                   [0..<ic + 1] (k * (k + 1) div 2, vk))
             [ic + 1..<nao] (kl, vk)
       in vk
     else vk)"

definition CVHFnrs4_il_s2jk_o0 :: kernel where
  "CVHFnrs4_il_s2jk_o0 eri dm vk nao ic jc = CVHFnrs4_jk_s2il_o0 eri dm vk nao ic jc"

section \<open>The exported kernels\<close>

definition CVHFnrs8_ij_s2kl :: kernel where
  "CVHFnrs8_ij_s2kl eri dm vj nao ic jc = CVHFnrs8_ij_s2kl_o0 eri dm vj nao ic jc"

text \<open>Here the second argument is \<^verbatim>\<open>tri_dm\<close>, the density matrix folded to its lower triangle.\<close>

definition CVHFnrs8_tridm_vj :: kernel where
  "CVHFnrs8_tridm_vj eri tri_dm vj nao ic jc =
    (let dm_ijc = tri_dm (ic * (ic + 1) div 2 + jc);
         vj_ij = ic * nao + jc;
         (ij, vj) = fold (\<lambda>i (ij, vj).
             fold (\<lambda>j (ij, vj).
                 (ij + 1, accs [(vj_ij, eri ij * tri_dm ij),
                                (i * nao + j, eri ij * dm_ijc)] vj))
               [0..<i + 1] (ij, vj))
           [0..<ic] (0, vj);
         i = ic;
         (ij, vj) = fold (\<lambda>j (ij, vj).
             (ij + 1, accs [(vj_ij, eri ij * tri_dm ij),
                            (i * nao + j, eri ij * dm_ijc)] vj))
           [0..<jc] (ij, vj)
     in acc vj_ij (eri ij * dm_ijc) vj)"

definition CVHFnrs8_jk_s1il :: kernel where
  "CVHFnrs8_jk_s1il eri dm vk nao ic jc = CVHFnrs8_jk_s1il_o0 eri dm vk nao ic jc"

definition CVHFnrs8_jk_s2il :: kernel where
  "CVHFnrs8_jk_s2il eri dm vk nao ic jc = CVHFnrs8_jk_s2il_o0 eri dm vk nao ic jc"

definition CVHFnrs4_jk_s1il :: kernel where
  "CVHFnrs4_jk_s1il eri dm vk nao ic jc = CVHFnrs4_jk_s1il_o0 eri dm vk nao ic jc"

definition CVHFnrs4_il_s1jk :: kernel where
  "CVHFnrs4_il_s1jk eri dm vk nao ic jc = CVHFnrs4_jk_s1il_o0 eri dm vk nao ic jc"

definition CVHFnrs4_jk_s2il :: kernel where
  "CVHFnrs4_jk_s2il eri dm vk nao ic jc = CVHFnrs4_jk_s2il_o0 eri dm vk nao ic jc"

definition CVHFnrs4_il_s2jk :: kernel where
  "CVHFnrs4_il_s2jk eri dm vk nao ic jc = CVHFnrs4_jk_s2il_o0 eri dm vk nao ic jc"

definition CVHFnrs4_ij_s2kl :: kernel where
  "CVHFnrs4_ij_s2kl eri dm vj nao ic jc = CVHFnrs4_ij_s2kl_o0 eri dm vj nao ic jc"

definition CVHFnrs4_kl_s2ij :: kernel where
  "CVHFnrs4_kl_s2ij eri dm vj nao ic jc =
    (if ic \<ge> jc then CVHFnrs2kl_kl_s1ij_o0 eri dm vj nao ic jc else vj)"

definition CVHFnrs1_ij_s1kl :: kernel where
  "CVHFnrs1_ij_s1kl eri dm vj nao ic jc =
    (let dm_ij = dm (ic * nao + jc)
     in fold (\<lambda>i vj. acc i (eri i * dm_ij) vj) [0..<nao * nao] vj)"

definition CVHFnrs1_kl_s1ij :: kernel where
  "CVHFnrs1_kl_s1ij eri dm vj nao ic jc =
    (let INC1 = 1;
         nn = nao * nao
     in acc (ic * nao + jc) (ddot nn eri INC1 dm INC1) vj)"

definition CVHFnrs1_jk_s1il :: kernel where
  "CVHFnrs1_jk_s1il eri dm vk nao ic jc =
    (let (kl, vk) = fold (\<lambda>k (kl, vk).
             fold (\<lambda>l (kl, vk). (kl + 1, acc (ic * nao + l) (eri kl * dm (jc * nao + k)) vk))
               [0..<nao] (kl, vk))
           [0..<nao] (0, vk)
     in vk)"

definition CVHFnrs1_il_s1jk :: kernel where
  "CVHFnrs1_il_s1jk eri dm vk nao ic jc =
    (let (kl, vk) = fold (\<lambda>k (kl, vk).
             fold (\<lambda>l (kl, vk). (kl + 1, acc (jc * nao + k) (eri kl * dm (ic * nao + l)) vk))
               [0..<nao] (kl, vk))
           [0..<nao] (0, vk)
     in vk)"

definition CVHFnrs2ij_ij_s1kl :: kernel where
  "CVHFnrs2ij_ij_s1kl eri dm vj nao ic jc =
    (case (if ic > jc then Some (dm (ic * nao + jc) + dm (jc * nao + ic))
           else if ic = jc then Some (dm (ic * nao + ic))
           else None) of
       None \<Rightarrow> vj
     | Some dm_ij \<Rightarrow> fold (\<lambda>i vj. acc i (eri i * dm_ij) vj) [0..<nao * nao] vj)"

definition CVHFnrs2ij_kl_s2ij :: kernel where
  "CVHFnrs2ij_kl_s2ij eri dm vj nao ic jc =
    (if ic < jc then vj else CVHFnrs1_kl_s1ij eri dm vj nao ic jc)"

definition CVHFnrs2ij_jk_s1il :: kernel where
  "CVHFnrs2ij_jk_s1il eri dm vk nao ic jc =
    (if ic > jc then
       let (kl, vk) = fold (\<lambda>k (kl, vk).
               fold (\<lambda>l (kl, vk).
                   (kl + 1, accs [(jc * nao + l, eri kl * dm (ic * nao + k)),
                                  (ic * nao + l, eri kl * dm (jc * nao + k))] vk))
                 [0..<nao] (kl, vk))
             [0..<nao] (0, vk)
       in vk
     else if ic = jc then
       let (kl, vk) = fold (\<lambda>k (kl, vk).
               fold (\<lambda>l (kl, vk).
                   (kl + 1, acc (ic * nao + l) (eri kl * dm (ic * nao + k)) vk))
                 [0..<nao] (kl, vk))
             [0..<nao] (0, vk)
       in vk
     else vk)"

definition CVHFnrs2ij_il_s1jk :: kernel where
  "CVHFnrs2ij_il_s1jk eri dm vk nao ic jc =
    (if ic > jc then
       let (kl, vk) = fold (\<lambda>k (kl, vk).
               fold (\<lambda>l (kl, vk).
                   (kl + 1, accs [(jc * nao + k, eri kl * dm (ic * nao + l)),
                                  (ic * nao + k, eri kl * dm (jc * nao + l))] vk))
                 [0..<nao] (kl, vk))
             [0..<nao] (0, vk)
       in vk
     else if ic = jc then
       let (kl, vk) = fold (\<lambda>k (kl, vk).
               fold (\<lambda>l (kl, vk).
                   (kl + 1, acc (ic * nao + k) (eri kl * dm (ic * nao + l)) vk))
                 [0..<nao] (kl, vk))
             [0..<nao] (0, vk)
       in vk
     else vk)"

definition CVHFnrs2kl_ij_s2kl :: kernel where
  "CVHFnrs2kl_ij_s2kl eri dm vj nao ic jc =
    (let dm_ij = dm (ic * nao + jc);
         (ij, vj) = fold (\<lambda>i (ij, vj).
             fold (\<lambda>j (ij, vj). (ij + 1, acc (i * nao + j) (eri ij * dm_ij) vj))
               [0..<i + 1] (ij, vj))
           [0..<nao] (0, vj)
     in vj)"

definition CVHFnrs2kl_kl_s1ij :: kernel where
  "CVHFnrs2kl_kl_s1ij eri dm vj nao ic jc = CVHFnrs2kl_kl_s1ij_o0 eri dm vj nao ic jc"

definition CVHFnrs2kl_jk_s1il :: kernel where
  "CVHFnrs2kl_jk_s1il eri dm vk nao ic jc =
    (let (kl, vk) = fold (\<lambda>k (kl, vk).
             let (kl, vk) = fold (\<lambda>l (kl, vk).
                   (kl + 1, accs [(ic * nao + l, eri kl * dm (jc * nao + k)),
                                  (ic * nao + k, eri kl * dm (jc * nao + l))] vk))
                 [0..<k] (kl, vk)
             in (kl + 1, acc (ic * nao + k) (eri kl * dm (jc * nao + k)) vk))
           [0..<nao] (0, vk)
     in vk)"

definition CVHFnrs2kl_il_s1jk :: kernel where
  "CVHFnrs2kl_il_s1jk eri dm vk nao ic jc =
    (let (kl, vk) = fold (\<lambda>k (kl, vk).
             let (kl, vk) = fold (\<lambda>l (kl, vk).
                   (kl + 1, accs [(jc * nao + l, eri kl * dm (ic * nao + k)),
                                  (jc * nao + k, eri kl * dm (ic * nao + l))] vk))
                 [0..<k] (kl, vk)
             in (kl + 1, acc (jc * nao + k) (eri kl * dm (ic * nao + k)) vk))
           [0..<nao] (0, vk)
     in vk)"

section \<open>Drivers\<close>

text \<open>The C conversion \<^verbatim>\<open>(int)x\<close> of a \<^verbatim>\<open>double\<close>: truncation towards zero.\<close>

definition double_to_int :: "real \<Rightarrow> int" where
  "double_to_int x = (if 0 \<le> x then \<lfloor>x\<rfloor> else \<lceil>x\<rceil>)"

text \<open>
  \<^verbatim>\<open>i = (int)(sqrt(2*ij+.25) - .5 + 1e-7);\<close> in exact arithmetic, as the drivers below
  use it.
\<close>

definition tri_unfold_i :: "nat \<Rightarrow> nat" where
  "tri_unfold_i ij = nat (double_to_int (sqrt (2 * real ij + 0.25) - 0.5 + 1 / 10 ^ 7))"

text \<open>
  The same expression in double precision: the literal \<^verbatim>\<open>1e-7\<close>, the sum
  \<^verbatim>\<open>2*ij+.25\<close>, the square root, the difference and the last sum each deliver their
  exact result rounded by \<open>rnd\<close>.  (\<^verbatim>\<open>2*ij\<close> is an integer product, \<^verbatim>\<open>.25\<close> and
  \<^verbatim>\<open>.5\<close> are doubles.)
\<close>

definition tri_unfold_fl :: "(real \<Rightarrow> real) \<Rightarrow> nat \<Rightarrow> nat" where
  "tri_unfold_fl rnd ij =
    nat (double_to_int (rnd (rnd (rnd (sqrt (rnd (2 * real ij + 0.25))) - 0.5) + rnd (1 / 10 ^ 7))))"

text \<open>
  The \<^verbatim>\<open>omp critical\<close> block: \<^verbatim>\<open>for (i = 0; i < n*n; i++) { vj[i] += vj_priv[i];
  vk[i] += vk_priv[i]; }\<close>
\<close>

definition merge_priv :: "nat \<Rightarrow> darray \<times> darray \<Rightarrow> darray \<times> darray \<Rightarrow> darray \<times> darray" where
  "merge_priv n priv shared =
    (let (vj_priv, vk_priv) = priv
     in fold (\<lambda>i (vj, vk). (acc i (vj_priv i) vj, acc i (vk_priv i) vk)) [0..<n * n] shared)"

text \<open>
  The \<^verbatim>\<open>omp parallel\<close> region.  Every thread of the team allocates and clears its own
  \<^verbatim>\<open>vj_priv\<close>, \<^verbatim>\<open>vk_priv\<close>, runs the iterations of the \<^verbatim>\<open>omp for\<close> loop that the
  runtime hands to it, and adds its private buffers to the shared ones inside the
  critical section.  The runtime's choice is the schedule \<open>sched\<close>: one list per
  thread, holding the loop indices that thread executes, in the order it executes them;
  the threads are listed in the order in which they enter the critical section.
  Threads share nothing but the read-only inputs until then, so running them one after
  the other in that order is what the region computes.  Built without OpenMP, the
  region is one thread running the whole loop: the schedule \<open>[[0..<m]]\<close> for a loop of
  \<open>m\<close> iterations.
\<close>

definition omp_region ::
  "nat \<Rightarrow> (nat \<Rightarrow> darray \<times> darray \<Rightarrow> darray \<times> darray) \<Rightarrow> nat list list \<Rightarrow>
   darray \<times> darray \<Rightarrow> darray \<times> darray" where
  "omp_region n iter sched shared =
    fold (\<lambda>iters shared. merge_priv n (fold iter iters (zeros, zeros)) shared) sched shared"

text \<open>
  Which schedules the runtime may choose for a loop \<^verbatim>\<open>for (ij = 0; ij < m; ij++)\<close>:
  every index below \<open>m\<close> is run exactly once, by some thread.  The loops of
  \<^verbatim>\<open>CVHFnrs8_incore_drv\<close>, \<^verbatim>\<open>CVHFnrs4_incore_drv\<close> and \<^verbatim>\<open>CVHFnrs2ij_incore_drv\<close>
  have \<^verbatim>\<open>npair = n*(n+1)/2\<close> iterations, those of \<^verbatim>\<open>CVHFnrs2kl_incore_drv\<close> and
  \<^verbatim>\<open>CVHFnrs1_incore_drv\<close> have \<^verbatim>\<open>n*n\<close>.
\<close>

definition valid_sched :: "nat \<Rightarrow> nat list list \<Rightarrow> bool" where
  "valid_sched m sched = (mset (concat sched) = mset [0..<m])"

definition npair_of :: "nat \<Rightarrow> nat" where
  "npair_of n = n * (n + 1) div 2"

definition CVHFnrs8_incore_drv ::
  "nat list list \<Rightarrow> darray \<Rightarrow> darray \<Rightarrow> darray \<Rightarrow> darray \<Rightarrow> darray \<Rightarrow> nat \<Rightarrow> kernel \<Rightarrow> kernel \<Rightarrow>
   darray \<times> darray" where
  "CVHFnrs8_incore_drv sched eri dmj vj dmk vk n fvj fvk =
    (let vj = memset0 vj (n * n);
         vk = memset0 vk (n * n)
     in omp_region n (\<lambda>ij (vj_priv, vk_priv).
          let i = tri_unfold_i ij;
              j = ij - i * (i + 1) div 2;
              off = ij * (ij + 1) div 2
          in (fvj (ptr_add eri off) dmj vj_priv n i j,
              fvk (ptr_add eri off) dmk vk_priv n i j))
        sched (vj, vk))"

definition CVHFnrs4_incore_drv ::
  "nat list list \<Rightarrow> darray \<Rightarrow> darray \<Rightarrow> darray \<Rightarrow> darray \<Rightarrow> darray \<Rightarrow> nat \<Rightarrow> kernel \<Rightarrow> kernel \<Rightarrow>
   darray \<times> darray" where
  "CVHFnrs4_incore_drv sched eri dmj vj dmk vk n fvj fvk =
    (let npair = n * (n + 1) div 2;
         vj = memset0 vj (n * n);
         vk = memset0 vk (n * n)
     in omp_region n (\<lambda>ij (vj_priv, vk_priv).
          let i = tri_unfold_i ij;
              j = ij - i * (i + 1) div 2;
              off = ij * npair
          in (fvj (ptr_add eri off) dmj vj_priv n i j,
              fvk (ptr_add eri off) dmk vk_priv n i j))
        sched (vj, vk))"

definition CVHFnrs2ij_incore_drv ::
  "nat list list \<Rightarrow> darray \<Rightarrow> darray \<Rightarrow> darray \<Rightarrow> darray \<Rightarrow> darray \<Rightarrow> nat \<Rightarrow> kernel \<Rightarrow> kernel \<Rightarrow>
   darray \<times> darray" where
  "CVHFnrs2ij_incore_drv sched eri dmj vj dmk vk n fvj fvk =
    (let vj = memset0 vj (n * n);
         vk = memset0 vk (n * n)
     in omp_region n (\<lambda>ij (vj_priv, vk_priv).
          let i = tri_unfold_i ij;
              j = ij - i * (i + 1) div 2;
              off = ij * n * n
          in (fvj (ptr_add eri off) dmj vj_priv n i j,
              fvk (ptr_add eri off) dmk vk_priv n i j))
        sched (vj, vk))"

definition CVHFnrs2kl_incore_drv ::
  "nat list list \<Rightarrow> darray \<Rightarrow> darray \<Rightarrow> darray \<Rightarrow> darray \<Rightarrow> darray \<Rightarrow> nat \<Rightarrow> kernel \<Rightarrow> kernel \<Rightarrow>
   darray \<times> darray" where
  "CVHFnrs2kl_incore_drv sched eri dmj vj dmk vk n fvj fvk =
    (let npair = n * (n + 1) div 2;
         vj = memset0 vj (n * n);
         vk = memset0 vk (n * n)
     in omp_region n (\<lambda>ij (vj_priv, vk_priv).
          let i = ij div n;
              j = ij - i * n;
              off = ij * npair
          in (fvj (ptr_add eri off) dmj vj_priv n i j,
              fvk (ptr_add eri off) dmk vk_priv n i j))
        sched (vj, vk))"

definition CVHFnrs1_incore_drv ::
  "nat list list \<Rightarrow> darray \<Rightarrow> darray \<Rightarrow> darray \<Rightarrow> darray \<Rightarrow> darray \<Rightarrow> nat \<Rightarrow> kernel \<Rightarrow> kernel \<Rightarrow>
   darray \<times> darray" where
  "CVHFnrs1_incore_drv sched eri dmj vj dmk vk n fvj fvk =
    (let vj = memset0 vj (n * n);
         vk = memset0 vk (n * n)
     in omp_region n (\<lambda>ij (vj_priv, vk_priv).
          let i = ij div n;
              j = ij - i * n;
              off = ij * n * n
          in (fvj (ptr_add eri off) dmj vj_priv n i j,
              fvk (ptr_add eri off) dmk vk_priv n i j))
        sched (vj, vk))"

section \<open>Every kernel of the file, and the contents of a buffer\<close>

text \<open>The functions of the file that have the kernel signature, in source order.\<close>

definition kernels :: "kernel list" where
  "kernels =
    [CVHFnrs8_ij_s2kl_o0, CVHFnrs4_ij_s2kl_o0, CVHFnrs2kl_kl_s1ij_o0,
     CVHFnrs8_jk_s1il_o0, CVHFnrs8_jk_s2il_o0, CVHFnrs4_jk_s1il_o0, CVHFnrs4_il_s1jk_o0,
     CVHFnrs4_jk_s2il_o0, CVHFnrs4_il_s2jk_o0,
     CVHFnrs8_ij_s2kl, CVHFnrs8_tridm_vj, CVHFnrs8_jk_s1il, CVHFnrs8_jk_s2il,
     CVHFnrs4_jk_s1il, CVHFnrs4_il_s1jk, CVHFnrs4_jk_s2il, CVHFnrs4_il_s2jk,
     CVHFnrs4_ij_s2kl, CVHFnrs4_kl_s2ij,
     CVHFnrs1_ij_s1kl, CVHFnrs1_kl_s1ij, CVHFnrs1_jk_s1il, CVHFnrs1_il_s1jk,
     CVHFnrs2ij_ij_s1kl, CVHFnrs2ij_kl_s2ij, CVHFnrs2ij_jk_s1il, CVHFnrs2ij_il_s1jk,
     CVHFnrs2kl_ij_s2kl, CVHFnrs2kl_kl_s1ij, CVHFnrs2kl_jk_s1il, CVHFnrs2kl_il_s1jk]"

text \<open>The \<open>n \<times> n\<close> doubles of an output buffer, first to last.\<close>

definition buffer :: "nat \<Rightarrow> darray \<Rightarrow> real list" where
  "buffer n v = map v [0..<n * n]"

text \<open>Adding one array to another, offset by offset.\<close>

definition padd :: "darray \<Rightarrow> darray \<Rightarrow> darray" where
  "padd v w = (\<lambda>p. v p + w p)"

text \<open>
  A kernel only accumulates: run on an accumulator that already holds \<open>w\<close> on top of
  \<open>v\<close>, it returns what it returns on \<open>v\<close>, with \<open>w\<close> on top.
\<close>

definition accumulating :: "kernel \<Rightarrow> bool" where
  "accumulating f =
    (\<forall>eri dm v w nao ic jc. f eri dm (padd v w) nao ic jc = padd (f eri dm v nao ic jc) w)"

text \<open>The term a statement \<^verbatim>\<open>v[p] += x;\<close> adds at offset \<open>q\<close>.\<close>

definition hit :: "nat \<Rightarrow> nat \<Rightarrow> real \<Rightarrow> real" where
  "hit q p x = (if q = p then x else 0)"

text \<open>
  The term the statement \<^verbatim>\<open>vk[x*nao+w] += e * dm[y*nao+z];\<close> adds at offset \<open>q\<close>: the
  contribution of the index tuple \<open>(x, y, z, w)\<close> to the exchange matrix.
\<close>

definition kcon :: "nat \<Rightarrow> darray \<Rightarrow> real \<Rightarrow> nat \<Rightarrow> nat \<Rightarrow> nat \<Rightarrow> nat \<Rightarrow> nat \<Rightarrow> real" where
  "kcon nao dm e q x y z w = hit q (x * nao + w) (e * dm (y * nao + z))"

section \<open>Storage layouts and reference contractions\<close>

text \<open>
  The compact index of the pair \<open>(a, b)\<close>, \<open>b \<le> a\<close>, in a lower triangle stored row
  by row: \<^verbatim>\<open>a*(a+1)/2 + b\<close>.
\<close>

definition tri :: "nat \<Rightarrow> nat \<Rightarrow> nat" where
  "tri a b = a * (a + 1) div 2 + b"

text \<open>The pair with compact index \<open>q\<close>: \<open>tri (tri_i q) (tri_j q) = q\<close> and \<open>tri_j q \<le> tri_i q\<close>.\<close>

primrec tri_i :: "nat \<Rightarrow> nat" where
  "tri_i 0 = 0"
| "tri_i (Suc q) = (if npair_of (Suc (tri_i q)) \<le> Suc q then Suc (tri_i q) else tri_i q)"

definition tri_j :: "nat \<Rightarrow> nat" where
  "tri_j q = q - npair_of (tri_i q)"

text \<open>
  The \<^verbatim>\<open>s8\<close> symmetry of a dense tensor on the indices below \<open>n\<close>, and its compact
  layout: the entries with \<open>j \<le> i\<close>, \<open>l \<le> k\<close> and \<open>kl \<le> ij\<close> (compact pair indices) are
  stored, the block of the outer pair \<open>ij\<close> starts at \<^verbatim>\<open>ij*(ij+1)/2\<close> and holds
  \<open>T i j k l\<close> at \<open>kl\<close>.
\<close>

definition s8_symmetric :: "nat \<Rightarrow> (nat \<Rightarrow> nat \<Rightarrow> nat \<Rightarrow> nat \<Rightarrow> real) \<Rightarrow> bool" where
  "s8_symmetric n T =
    (\<forall>i\<in>{..<n}. \<forall>j\<in>{..<n}. \<forall>k\<in>{..<n}. \<forall>l\<in>{..<n}.
       T i j k l = T j i k l \<and> T i j k l = T i j l k \<and> T i j k l = T k l i j)"

definition s8_layout :: "nat \<Rightarrow> (nat \<Rightarrow> nat \<Rightarrow> nat \<Rightarrow> nat \<Rightarrow> real) \<Rightarrow> darray \<Rightarrow> bool" where
  "s8_layout n T eri =
    (\<forall>i\<in>{..<n}. \<forall>j\<in>{..i}. \<forall>k\<in>{..i}. \<forall>l\<in>{..k}.
       tri k l \<le> tri i j \<longrightarrow> eri (tri (tri i j) (tri k l)) = T i j k l)"

text \<open>The dense brute-force contractions the kernels are compared with.\<close>

definition einsum_J :: "nat \<Rightarrow> (nat \<Rightarrow> nat \<Rightarrow> nat \<Rightarrow> nat \<Rightarrow> real) \<Rightarrow> darray \<Rightarrow> nat \<Rightarrow> nat \<Rightarrow> real" where
  "einsum_J n T dm i j = (\<Sum>k<n. \<Sum>l<n. T i j k l * dm (k * n + l))"

definition einsum_K :: "nat \<Rightarrow> (nat \<Rightarrow> nat \<Rightarrow> nat \<Rightarrow> nat \<Rightarrow> real) \<Rightarrow> darray \<Rightarrow> nat \<Rightarrow> nat \<Rightarrow> real" where
  "einsum_K n T dm i l = (\<Sum>j<n. \<Sum>k<n. T i j k l * dm (j * n + k))"

text \<open>
  The \<^verbatim>\<open>s1\<close> layout of a dense tensor \<open>T\<close>: no symmetry is used, the block of the
  outer pair \<open>(i, j)\<close> starts at \<^verbatim>\<open>(i*n+j)*n*n\<close> and holds \<open>T i j k l\<close> at \<^verbatim>\<open>k*n+l\<close>.
\<close>

definition s1_layout :: "nat \<Rightarrow> (nat \<Rightarrow> nat \<Rightarrow> nat \<Rightarrow> nat \<Rightarrow> real) \<Rightarrow> darray \<Rightarrow> bool" where
  "s1_layout n T eri =
    (\<forall>i\<in>{..<n}. \<forall>j\<in>{..<n}. \<forall>k\<in>{..<n}. \<forall>l\<in>{..<n}.
       eri (((i * n + j) * n + k) * n + l) = T i j k l)"

text \<open>\<open>dm\<close> holds the \<open>n \<times> n\<close> identity matrix.\<close>

definition dm_identity :: "nat \<Rightarrow> darray \<Rightarrow> bool" where
  "dm_identity n dm = (\<forall>k\<in>{..<n}. \<forall>l\<in>{..<n}. dm (k * n + l) = (if k = l then 1 else 0))"

text \<open>
  The standard model of floating-point arithmetic for doubles: an operation delivers its
  exact result with a relative error of at most \<open>2\<^sup>-\<^sup>5\<^sup>3\<close>.  IEEE 754 double
  arithmetic rounding to nearest satisfies it wherever it neither overflows nor
  underflows; exact arithmetic satisfies it with no error.
\<close>

definition standard_model :: "(real \<Rightarrow> real) \<Rightarrow> bool" where
  "standard_model rnd = (\<forall>x. \<bar>rnd x - x\<bar> \<le> \<bar>x\<bar> / 2 ^ 53)"

section \<open>Symmetrised contributions\<close>

text \<open>
  The sum of a function of two indices over the ordered pairs that the pair \<open>j \<le> i\<close>
  stands for: both orders off the diagonal, one on it.
\<close>

definition sym2 :: "(nat \<Rightarrow> nat \<Rightarrow> real) \<Rightarrow> nat \<Rightarrow> nat \<Rightarrow> real" where
  "sym2 H i j = (if j < i then H i j + H j i else H i i)"

text \<open>
  What the pair \<open>(k, l)\<close> of the compact tensor contributes to the Coulomb matrix entry
  of the pair \<open>(i, j)\<close>, seen at offset \<open>q\<close>.
\<close>

definition jpair ::
  "nat \<Rightarrow> (nat \<Rightarrow> nat \<Rightarrow> nat \<Rightarrow> nat \<Rightarrow> real) \<Rightarrow> darray \<Rightarrow> nat \<Rightarrow> nat \<Rightarrow> nat \<Rightarrow> nat \<Rightarrow> nat \<Rightarrow> real" where
  "jpair n T dm q i j k l = hit q (i * n + j) (T i j k l * sym2 (\<lambda>k l. dm (k * n + l)) k l)"

text \<open>
  What the dense tensor entry \<open>(x, y, z, w)\<close> contributes to the exchange matrix, seen at
  offset \<open>q\<close>, and the sum of these contributions over the ordered tuples that the pairs
  \<open>j \<le> i\<close> and \<open>l \<le> k\<close> stand for.
\<close>

definition kten ::
  "nat \<Rightarrow> (nat \<Rightarrow> nat \<Rightarrow> nat \<Rightarrow> nat \<Rightarrow> real) \<Rightarrow> darray \<Rightarrow> nat \<Rightarrow> nat \<Rightarrow> nat \<Rightarrow> nat \<Rightarrow> nat \<Rightarrow> real" where
  "kten n T dm q x y z w = kcon n dm (T x y z w) q x y z w"

definition kquad ::
  "nat \<Rightarrow> (nat \<Rightarrow> nat \<Rightarrow> nat \<Rightarrow> nat \<Rightarrow> real) \<Rightarrow> darray \<Rightarrow> nat \<Rightarrow> nat \<Rightarrow> nat \<Rightarrow> nat \<Rightarrow> nat \<Rightarrow> real" where
  "kquad n T dm q i j k l = sym2 (\<lambda>x y. sym2 (\<lambda>z w. kten n T dm q x y z w) k l) i j"

text \<open>A real symmetric (Hermitian) density matrix.\<close>

definition dm_symmetric :: "nat \<Rightarrow> darray \<Rightarrow> bool" where
  "dm_symmetric n dm = (\<forall>k\<in>{..<n}. \<forall>l\<in>{..<n}. dm (k * n + l) = dm (l * n + k))"

section \<open>Kernels called on an outer pair above the diagonal\<close>

text \<open>
  C6.  Each kernel over a triangular outer-pair class that branches on the outer pair
  returns the accumulator it was given, unchanged at every offset, when it is called
  with \<open>ic < jc\<close>.
\<close>

theorem upper_pair_is_noop:
  assumes "ic < jc"
  shows "CVHFnrs8_ij_s2kl_o0 eri dm v nao ic jc = v
       \<and> CVHFnrs4_ij_s2kl_o0 eri dm v nao ic jc = v
       \<and> CVHFnrs8_jk_s1il_o0 eri dm v nao ic jc = v
       \<and> CVHFnrs8_jk_s2il_o0 eri dm v nao ic jc = v
       \<and> CVHFnrs4_jk_s1il_o0 eri dm v nao ic jc = v
       \<and> CVHFnrs4_jk_s2il_o0 eri dm v nao ic jc = v
       \<and> CVHFnrs2ij_ij_s1kl eri dm v nao ic jc = v
       \<and> CVHFnrs2ij_jk_s1il eri dm v nao ic jc = v
       \<and> CVHFnrs2ij_il_s1jk eri dm v nao ic jc = v
       \<and> CVHFnrs2ij_kl_s2ij eri dm v nao ic jc = v
       \<and> CVHFnrs4_kl_s2ij eri dm v nao ic jc = v"
proof -
  from assms have gt: "\<not> ic > jc" and eq: "ic \<noteq> jc" and ge: "\<not> ic \<ge> jc"
    by simp_all
  have "CVHFnrs8_ij_s2kl_o0 eri dm v nao ic jc = v"
    unfolding CVHFnrs8_ij_s2kl_o0_def using gt eq by simp
  moreover have "CVHFnrs4_ij_s2kl_o0 eri dm v nao ic jc = v"
    unfolding CVHFnrs4_ij_s2kl_o0_def using gt eq by simp
  moreover have "CVHFnrs8_jk_s1il_o0 eri dm v nao ic jc = v"
    unfolding CVHFnrs8_jk_s1il_o0_def using gt eq by simp
  moreover have "CVHFnrs8_jk_s2il_o0 eri dm v nao ic jc = v"
    unfolding CVHFnrs8_jk_s2il_o0_def using gt eq by simp
  moreover have "CVHFnrs4_jk_s1il_o0 eri dm v nao ic jc = v"
    unfolding CVHFnrs4_jk_s1il_o0_def using gt eq by simp
  moreover have "CVHFnrs4_jk_s2il_o0 eri dm v nao ic jc = v"
    unfolding CVHFnrs4_jk_s2il_o0_def using gt eq by simp
  moreover have "CVHFnrs2ij_ij_s1kl eri dm v nao ic jc = v"
    unfolding CVHFnrs2ij_ij_s1kl_def using gt eq by simp
  moreover have "CVHFnrs2ij_jk_s1il eri dm v nao ic jc = v"
    unfolding CVHFnrs2ij_jk_s1il_def using gt eq by simp
  moreover have "CVHFnrs2ij_il_s1jk eri dm v nao ic jc = v"
    unfolding CVHFnrs2ij_il_s1jk_def using gt eq by simp
  moreover have "CVHFnrs2ij_kl_s2ij eri dm v nao ic jc = v"
    unfolding CVHFnrs2ij_kl_s2ij_def using assms by simp
  moreover have "CVHFnrs4_kl_s2ij eri dm v nao ic jc = v"
    unfolding CVHFnrs4_kl_s2ij_def using ge by simp
  ultimately show ?thesis by simp
qed

theorem upper_pair_is_noop_witness:
  "(1::nat) < 2
   \<and> CVHFnrs8_ij_s2kl_o0 (\<lambda>p. real p + 1) (\<lambda>p. 2 * real p + 3) (\<lambda>p. 7 - real p) 3 1 2 = (\<lambda>p. 7 - real p)
   \<and> CVHFnrs8_jk_s1il_o0 (\<lambda>p. real p + 1) (\<lambda>p. 2 * real p + 3) (\<lambda>p. 7 - real p) 3 1 2 = (\<lambda>p. 7 - real p)
   \<and> CVHFnrs8_jk_s2il_o0 (\<lambda>p. real p + 1) (\<lambda>p. 2 * real p + 3) (\<lambda>p. 7 - real p) 3 1 2 = (\<lambda>p. 7 - real p)
   \<and> CVHFnrs2ij_ij_s1kl (\<lambda>p. real p + 1) (\<lambda>p. 2 * real p + 3) (\<lambda>p. 7 - real p) 3 1 2 = (\<lambda>p. 7 - real p)
   \<and> CVHFnrs4_kl_s2ij (\<lambda>p. real p + 1) (\<lambda>p. 2 * real p + 3) (\<lambda>p. 7 - real p) 3 1 2 = (\<lambda>p. 7 - real p)"
  using upper_pair_is_noop [of 1 2 "\<lambda>p. real p + 1" "\<lambda>p. 2 * real p + 3" "\<lambda>p. 7 - real p" 3]
  by simp

section \<open>Alias kernels\<close>

text \<open>
  C7.  The alias kernels make the same accumulator updates as their targets:
  \<^verbatim>\<open>CVHFnrs4_il_s1jk\<close> returns what \<^verbatim>\<open>CVHFnrs4_jk_s1il\<close> returns and
  \<^verbatim>\<open>CVHFnrs4_il_s2jk\<close> returns what \<^verbatim>\<open>CVHFnrs4_jk_s2il\<close> returns, on every
  \<^verbatim>\<open>eri\<close> block, \<^verbatim>\<open>dm\<close>, \<^verbatim>\<open>vk\<close>, \<^verbatim>\<open>nao\<close>, \<^verbatim>\<open>ic\<close> and \<^verbatim>\<open>jc\<close>; so do the
  \<^verbatim>\<open>_o0\<close> aliases.
\<close>

theorem alias_kernels_equal:
  "CVHFnrs4_il_s1jk eri dm vk nao ic jc = CVHFnrs4_jk_s1il eri dm vk nao ic jc
   \<and> CVHFnrs4_il_s2jk eri dm vk nao ic jc = CVHFnrs4_jk_s2il eri dm vk nao ic jc
   \<and> CVHFnrs4_il_s1jk_o0 eri dm vk nao ic jc = CVHFnrs4_jk_s1il_o0 eri dm vk nao ic jc
   \<and> CVHFnrs4_il_s2jk_o0 eri dm vk nao ic jc = CVHFnrs4_jk_s2il_o0 eri dm vk nao ic jc"
  by (simp add: CVHFnrs4_il_s1jk_def CVHFnrs4_jk_s1il_def CVHFnrs4_il_s2jk_def
      CVHFnrs4_jk_s2il_def CVHFnrs4_il_s1jk_o0_def CVHFnrs4_il_s2jk_o0_def)

section \<open>Kernels only accumulate\<close>

lemma acc_padd: "acc p x (padd v w) = padd (acc p x v) w"
  by (auto simp: acc_def padd_def fun_eq_iff)

lemma accs_padd: "accs us (padd v w) = padd (accs us v) w"
  by (induction us arbitrary: v) (simp_all add: acc_padd)

lemma fold_padd:
  assumes "\<And>x v. f x (padd v w) = padd (f x v) w"
  shows "fold f xs (padd v w) = padd (fold f xs v) w"
  by (induction xs arbitrary: v) (simp_all add: assms)

lemma fold_pair_padd:
  assumes "\<And>x c v. f x (c, padd v w) = (fst (f x (c, v)), padd (snd (f x (c, v))) w)"
  shows "fold f xs (c, padd v w) = (fst (fold f xs (c, v)), padd (snd (fold f xs (c, v))) w)"
proof (induction xs arbitrary: c v)
  case Nil
  show ?case by simp
next
  case (Cons x xs)
  have "fold f (x # xs) (c, padd v w) = fold f xs (f x (c, padd v w))" by simp
  also have "\<dots> = fold f xs (fst (f x (c, v)), padd (snd (f x (c, v))) w)"
    by (simp add: assms)
  also have "\<dots> = (fst (fold f xs (f x (c, v))), padd (snd (fold f xs (f x (c, v)))) w)"
    using Cons.IH [of "fst (f x (c, v))" "snd (f x (c, v))"] by simp
  finally show ?case by simp
qed

lemma for_step2_padd:
  assumes "\<And>x c v. f x (c, padd v w) = (fst (f x (c, v)), padd (snd (f x (c, v))) w)"
  shows "for_step2 k hi f (c, padd v w) =
     (fst (for_step2 k hi f (c, v)), fst (snd (for_step2 k hi f (c, v))),
      padd (snd (snd (for_step2 k hi f (c, v)))) w)"
proof (induction "hi - k" arbitrary: k c v rule: less_induct)
  case less
  show ?case
  proof (cases "k < hi")
    case True
    have "for_step2 k hi f (c, padd v w) = for_step2 (k + 2) hi f (f k (c, padd v w))"
      using True by (subst for_step2.simps) simp
    also have "\<dots> = for_step2 (k + 2) hi f (fst (f k (c, v)), padd (snd (f k (c, v))) w)"
      by (simp add: assms)
    also have "\<dots> = (fst (for_step2 (k + 2) hi f (f k (c, v))), fst (snd (for_step2 (k + 2) hi f (f k (c, v)))),
      padd (snd (snd (for_step2 (k + 2) hi f (f k (c, v))))) w)"
      using less [of "k + 2" "fst (f k (c, v))" "snd (f k (c, v))"] True by simp
    also have "for_step2 (k + 2) hi f (f k (c, v)) = for_step2 k hi f (c, v)"
      using True by (subst (2) for_step2.simps) simp
    finally show ?thesis .
  next
    case False
    then show ?thesis by (subst for_step2.simps, subst (2 3 4) for_step2.simps) simp
  qed
qed


lemma CVHFnrs8_ij_s2kl_o0_padd:
  "CVHFnrs8_ij_s2kl_o0 eri dm (padd v w) nao ic jc = padd (CVHFnrs8_ij_s2kl_o0 eri dm v nao ic jc) w"
  by (simp add: CVHFnrs8_ij_s2kl_o0_def Let_def split_def fold_pair_padd fold_padd accs_padd acc_padd
      for_step2_padd del: accs.simps)

lemma CVHFnrs4_ij_s2kl_o0_padd:
  "CVHFnrs4_ij_s2kl_o0 eri dm (padd v w) nao ic jc = padd (CVHFnrs4_ij_s2kl_o0 eri dm v nao ic jc) w"
  by (simp add: CVHFnrs4_ij_s2kl_o0_def Let_def split_def fold_pair_padd fold_padd accs_padd acc_padd
      for_step2_padd del: accs.simps)

lemma CVHFnrs2kl_kl_s1ij_o0_padd:
  "CVHFnrs2kl_kl_s1ij_o0 eri dm (padd v w) nao ic jc = padd (CVHFnrs2kl_kl_s1ij_o0 eri dm v nao ic jc) w"
  by (simp add: CVHFnrs2kl_kl_s1ij_o0_def Let_def split_def fold_pair_padd fold_padd accs_padd acc_padd
      for_step2_padd del: accs.simps)

lemma CVHFnrs8_jk_s1il_o0_padd:
  "CVHFnrs8_jk_s1il_o0 eri dm (padd v w) nao ic jc = padd (CVHFnrs8_jk_s1il_o0 eri dm v nao ic jc) w"
  by (simp add: CVHFnrs8_jk_s1il_o0_def Let_def split_def fold_pair_padd fold_padd accs_padd acc_padd
      for_step2_padd del: accs.simps)

lemma CVHFnrs8_jk_s2il_o0_padd:
  "CVHFnrs8_jk_s2il_o0 eri dm (padd v w) nao ic jc = padd (CVHFnrs8_jk_s2il_o0 eri dm v nao ic jc) w"
  by (simp add: CVHFnrs8_jk_s2il_o0_def Let_def split_def fold_pair_padd fold_padd accs_padd acc_padd
      for_step2_padd del: accs.simps)

lemma CVHFnrs4_jk_s1il_o0_padd:
  "CVHFnrs4_jk_s1il_o0 eri dm (padd v w) nao ic jc = padd (CVHFnrs4_jk_s1il_o0 eri dm v nao ic jc) w"
  by (simp add: CVHFnrs4_jk_s1il_o0_def Let_def split_def fold_pair_padd fold_padd accs_padd acc_padd
      for_step2_padd del: accs.simps)

lemma CVHFnrs4_jk_s2il_o0_padd:
  "CVHFnrs4_jk_s2il_o0 eri dm (padd v w) nao ic jc = padd (CVHFnrs4_jk_s2il_o0 eri dm v nao ic jc) w"
  by (simp add: CVHFnrs4_jk_s2il_o0_def Let_def split_def fold_pair_padd fold_padd accs_padd acc_padd
      for_step2_padd del: accs.simps)

lemma CVHFnrs8_tridm_vj_padd:
  "CVHFnrs8_tridm_vj eri dm (padd v w) nao ic jc = padd (CVHFnrs8_tridm_vj eri dm v nao ic jc) w"
  by (simp add: CVHFnrs8_tridm_vj_def Let_def split_def fold_pair_padd fold_padd accs_padd acc_padd
      for_step2_padd del: accs.simps)

lemma CVHFnrs1_ij_s1kl_padd:
  "CVHFnrs1_ij_s1kl eri dm (padd v w) nao ic jc = padd (CVHFnrs1_ij_s1kl eri dm v nao ic jc) w"
  by (simp add: CVHFnrs1_ij_s1kl_def Let_def split_def fold_pair_padd fold_padd accs_padd acc_padd
      for_step2_padd del: accs.simps)

lemma CVHFnrs1_kl_s1ij_padd:
  "CVHFnrs1_kl_s1ij eri dm (padd v w) nao ic jc = padd (CVHFnrs1_kl_s1ij eri dm v nao ic jc) w"
  by (simp add: CVHFnrs1_kl_s1ij_def Let_def split_def fold_pair_padd fold_padd accs_padd acc_padd
      for_step2_padd del: accs.simps)

lemma CVHFnrs1_jk_s1il_padd:
  "CVHFnrs1_jk_s1il eri dm (padd v w) nao ic jc = padd (CVHFnrs1_jk_s1il eri dm v nao ic jc) w"
  by (simp add: CVHFnrs1_jk_s1il_def Let_def split_def fold_pair_padd fold_padd accs_padd acc_padd
      for_step2_padd del: accs.simps)

lemma CVHFnrs1_il_s1jk_padd:
  "CVHFnrs1_il_s1jk eri dm (padd v w) nao ic jc = padd (CVHFnrs1_il_s1jk eri dm v nao ic jc) w"
  by (simp add: CVHFnrs1_il_s1jk_def Let_def split_def fold_pair_padd fold_padd accs_padd acc_padd
      for_step2_padd del: accs.simps)

lemma CVHFnrs2ij_ij_s1kl_padd:
  "CVHFnrs2ij_ij_s1kl eri dm (padd v w) nao ic jc = padd (CVHFnrs2ij_ij_s1kl eri dm v nao ic jc) w"
  by (simp add: CVHFnrs2ij_ij_s1kl_def Let_def split_def fold_pair_padd fold_padd accs_padd acc_padd
      for_step2_padd del: accs.simps)

lemma CVHFnrs2ij_jk_s1il_padd:
  "CVHFnrs2ij_jk_s1il eri dm (padd v w) nao ic jc = padd (CVHFnrs2ij_jk_s1il eri dm v nao ic jc) w"
  by (simp add: CVHFnrs2ij_jk_s1il_def Let_def split_def fold_pair_padd fold_padd accs_padd acc_padd
      for_step2_padd del: accs.simps)

lemma CVHFnrs2ij_il_s1jk_padd:
  "CVHFnrs2ij_il_s1jk eri dm (padd v w) nao ic jc = padd (CVHFnrs2ij_il_s1jk eri dm v nao ic jc) w"
  by (simp add: CVHFnrs2ij_il_s1jk_def Let_def split_def fold_pair_padd fold_padd accs_padd acc_padd
      for_step2_padd del: accs.simps)

lemma CVHFnrs2kl_ij_s2kl_padd:
  "CVHFnrs2kl_ij_s2kl eri dm (padd v w) nao ic jc = padd (CVHFnrs2kl_ij_s2kl eri dm v nao ic jc) w"
  by (simp add: CVHFnrs2kl_ij_s2kl_def Let_def split_def fold_pair_padd fold_padd accs_padd acc_padd
      for_step2_padd del: accs.simps)

lemma CVHFnrs2kl_jk_s1il_padd:
  "CVHFnrs2kl_jk_s1il eri dm (padd v w) nao ic jc = padd (CVHFnrs2kl_jk_s1il eri dm v nao ic jc) w"
  by (simp add: CVHFnrs2kl_jk_s1il_def Let_def split_def fold_pair_padd fold_padd accs_padd acc_padd
      for_step2_padd del: accs.simps)

lemma CVHFnrs2kl_il_s1jk_padd:
  "CVHFnrs2kl_il_s1jk eri dm (padd v w) nao ic jc = padd (CVHFnrs2kl_il_s1jk eri dm v nao ic jc) w"
  by (simp add: CVHFnrs2kl_il_s1jk_def Let_def split_def fold_pair_padd fold_padd accs_padd acc_padd
      for_step2_padd del: accs.simps)

lemma CVHFnrs4_il_s1jk_o0_padd:
  "CVHFnrs4_il_s1jk_o0 eri dm (padd v w) nao ic jc = padd (CVHFnrs4_il_s1jk_o0 eri dm v nao ic jc) w"
  by (simp add: CVHFnrs4_il_s1jk_o0_def CVHFnrs4_jk_s1il_o0_padd)

lemma CVHFnrs4_il_s2jk_o0_padd:
  "CVHFnrs4_il_s2jk_o0 eri dm (padd v w) nao ic jc = padd (CVHFnrs4_il_s2jk_o0 eri dm v nao ic jc) w"
  by (simp add: CVHFnrs4_il_s2jk_o0_def CVHFnrs4_jk_s2il_o0_padd)

lemma CVHFnrs8_ij_s2kl_padd:
  "CVHFnrs8_ij_s2kl eri dm (padd v w) nao ic jc = padd (CVHFnrs8_ij_s2kl eri dm v nao ic jc) w"
  by (simp add: CVHFnrs8_ij_s2kl_def CVHFnrs8_ij_s2kl_o0_padd)

lemma CVHFnrs8_jk_s1il_padd:
  "CVHFnrs8_jk_s1il eri dm (padd v w) nao ic jc = padd (CVHFnrs8_jk_s1il eri dm v nao ic jc) w"
  by (simp add: CVHFnrs8_jk_s1il_def CVHFnrs8_jk_s1il_o0_padd)

lemma CVHFnrs8_jk_s2il_padd:
  "CVHFnrs8_jk_s2il eri dm (padd v w) nao ic jc = padd (CVHFnrs8_jk_s2il eri dm v nao ic jc) w"
  by (simp add: CVHFnrs8_jk_s2il_def CVHFnrs8_jk_s2il_o0_padd)

lemma CVHFnrs4_jk_s1il_padd:
  "CVHFnrs4_jk_s1il eri dm (padd v w) nao ic jc = padd (CVHFnrs4_jk_s1il eri dm v nao ic jc) w"
  by (simp add: CVHFnrs4_jk_s1il_def CVHFnrs4_jk_s1il_o0_padd)

lemma CVHFnrs4_il_s1jk_padd:
  "CVHFnrs4_il_s1jk eri dm (padd v w) nao ic jc = padd (CVHFnrs4_il_s1jk eri dm v nao ic jc) w"
  by (simp add: CVHFnrs4_il_s1jk_def CVHFnrs4_jk_s1il_o0_padd)

lemma CVHFnrs4_jk_s2il_padd:
  "CVHFnrs4_jk_s2il eri dm (padd v w) nao ic jc = padd (CVHFnrs4_jk_s2il eri dm v nao ic jc) w"
  by (simp add: CVHFnrs4_jk_s2il_def CVHFnrs4_jk_s2il_o0_padd)

lemma CVHFnrs4_il_s2jk_padd:
  "CVHFnrs4_il_s2jk eri dm (padd v w) nao ic jc = padd (CVHFnrs4_il_s2jk eri dm v nao ic jc) w"
  by (simp add: CVHFnrs4_il_s2jk_def CVHFnrs4_jk_s2il_o0_padd)

lemma CVHFnrs4_ij_s2kl_padd:
  "CVHFnrs4_ij_s2kl eri dm (padd v w) nao ic jc = padd (CVHFnrs4_ij_s2kl eri dm v nao ic jc) w"
  by (simp add: CVHFnrs4_ij_s2kl_def CVHFnrs4_ij_s2kl_o0_padd)

lemma CVHFnrs4_kl_s2ij_padd:
  "CVHFnrs4_kl_s2ij eri dm (padd v w) nao ic jc = padd (CVHFnrs4_kl_s2ij eri dm v nao ic jc) w"
  by (simp add: CVHFnrs4_kl_s2ij_def CVHFnrs2kl_kl_s1ij_o0_padd)

lemma CVHFnrs2ij_kl_s2ij_padd:
  "CVHFnrs2ij_kl_s2ij eri dm (padd v w) nao ic jc = padd (CVHFnrs2ij_kl_s2ij eri dm v nao ic jc) w"
  by (simp add: CVHFnrs2ij_kl_s2ij_def CVHFnrs1_kl_s1ij_padd)

lemma CVHFnrs2kl_kl_s1ij_padd:
  "CVHFnrs2kl_kl_s1ij eri dm (padd v w) nao ic jc = padd (CVHFnrs2kl_kl_s1ij eri dm v nao ic jc) w"
  by (simp add: CVHFnrs2kl_kl_s1ij_def CVHFnrs2kl_kl_s1ij_o0_padd)

section \<open>What the parallel region computes\<close>

lemma padd_zeros [simp]: "padd zeros v = v" "padd v zeros = v"
  by (simp_all add: padd_def zeros_def)

lemma acc_apply: "acc p x v q = (if q = p then v q + x else v q)"
  by (simp add: acc_def)

lemma merge_loop:
  "fold (\<lambda>i (vj, vk). (acc i (pj i) vj, acc i (pk i) vk)) [0..<m] (vj, vk) =
    ((\<lambda>p. if p < m then vj p + pj p else vj p), (\<lambda>p. if p < m then vk p + pk p else vk p))"
proof (induction m)
  case 0
  show ?case by simp
next
  case (Suc m)
  have "fold (\<lambda>i (vj, vk). (acc i (pj i) vj, acc i (pk i) vk)) [0..<Suc m] (vj, vk) =
      (\<lambda>(vj, vk). (acc m (pj m) vj, acc m (pk m) vk))
        (fold (\<lambda>i (vj, vk). (acc i (pj i) vj, acc i (pk i) vk)) [0..<m] (vj, vk))"
    by simp
  also have "\<dots> = (acc m (pj m) (\<lambda>p. if p < m then vj p + pj p else vj p),
      acc m (pk m) (\<lambda>p. if p < m then vk p + pk p else vk p))"
    unfolding Suc by simp
  also have "\<dots> = ((\<lambda>p. if p < Suc m then vj p + pj p else vj p),
      (\<lambda>p. if p < Suc m then vk p + pk p else vk p))"
    by (auto simp: fun_eq_iff acc_apply less_Suc_eq)
  finally show ?case .
qed

lemma merge_priv_apply:
  "merge_priv n priv shared =
    ((\<lambda>p. if p < n * n then fst shared p + fst priv p else fst shared p),
     (\<lambda>p. if p < n * n then snd shared p + snd priv p else snd shared p))"
  by (cases priv; cases shared) (simp add: merge_priv_def merge_loop cong: if_cong)

lemma omp_region_apply:
  "omp_region n iter sched shared =
    ((\<lambda>p. if p < n * n
           then fst shared p + (\<Sum>t\<leftarrow>sched. fst (fold iter t (zeros, zeros)) p)
           else fst shared p),
     (\<lambda>p. if p < n * n
           then snd shared p + (\<Sum>t\<leftarrow>sched. snd (fold iter t (zeros, zeros)) p)
           else snd shared p))"
proof (induction sched arbitrary: shared)
  case Nil
  show ?case by (cases shared) (simp add: omp_region_def cong: if_cong)
next
  case (Cons t sched)
  have "omp_region n iter (t # sched) shared =
      omp_region n iter sched (merge_priv n (fold iter t (zeros, zeros)) shared)"
    by (simp add: omp_region_def)
  then show ?case
    by (simp add: Cons merge_priv_apply fun_eq_iff cong: if_cong)
qed

lemma fold_pair_split:
  "fold (\<lambda>ij (a, b). (F ij a, G ij b)) xs (a0, b0) = (fold F xs a0, fold G xs b0)"
  by (induction xs arbitrary: a0 b0) simp_all

lemma thread_sum1:
  assumes "\<And>ij a w. F ij (padd a w) = padd (F ij a) w"
  shows "fold F xs a = (\<lambda>p. a p + (\<Sum>ij\<leftarrow>xs. F ij zeros p))"
proof (induction xs arbitrary: a)
  case Nil
  show ?case by simp
next
  case (Cons x xs)
  have "F x a = F x (padd zeros a)" by simp
  also have "\<dots> = padd (F x zeros) a" by (rule assms)
  finally have step: "F x a = padd (F x zeros) a" .
  show ?case
    by (simp add: step Cons padd_def fun_eq_iff)
qed

lemma sum_list_concat_map:
  "(\<Sum>t\<leftarrow>sched. (\<Sum>ij\<leftarrow>t. (f ij :: real))) = (\<Sum>ij\<leftarrow>concat sched. f ij)"
  by (induction sched) simp_all

lemma sum_list_mset_cong:
  assumes "mset xs = mset ys"
  shows "(\<Sum>x\<leftarrow>xs. (f x :: real)) = (\<Sum>x\<leftarrow>ys. f x)"
proof -
  have "(\<Sum>x\<leftarrow>xs. f x) = sum_mset (image_mset f (mset xs))"
    by (simp add: sum_mset_sum_list [symmetric])
  also have "\<dots> = sum_mset (image_mset f (mset ys))" using assms by simp
  also have "\<dots> = (\<Sum>x\<leftarrow>ys. f x)" by (simp add: sum_mset_sum_list [symmetric])
  finally show ?thesis .
qed

lemma sum_list_upt: "(\<Sum>x\<leftarrow>[0..<m]. (f x :: real)) = (\<Sum>x<m. f x)"
  by (induction m) simp_all

lemma sum_list_sched:
  assumes "valid_sched m sched"
  shows "(\<Sum>t\<leftarrow>sched. (\<Sum>ij\<leftarrow>t. (f ij :: real))) = (\<Sum>ij<m. f ij)"
proof -
  have m: "mset (concat sched) = mset [0..<m]"
    using assms by (simp add: valid_sched_def)
  show ?thesis
    by (simp add: sum_list_concat_map sum_list_mset_cong [OF m] sum_list_upt)
qed

lemma region_fst:
  assumes "accumulating fvj" and "valid_sched m sched"
  shows "fst (omp_region n (\<lambda>ij (vj_priv, vk_priv).
      (fvj (ptr_add eri (off ij)) dmj vj_priv n (fi ij) (fj ij), G ij vk_priv)) sched (vj, vk)) =
    (\<lambda>p. if p < n * n
          then vj p + (\<Sum>ij<m. fvj (ptr_add eri (off ij)) dmj zeros n (fi ij) (fj ij) p)
          else vj p)"
proof -
  have a: "fvj e dm (padd a w) n i j = padd (fvj e dm a n i j) w" for e dm a w i j
    using assms(1) unfolding accumulating_def by blast
  have t: "fst (fold (\<lambda>ij (vj_priv, vk_priv).
        (fvj (ptr_add eri (off ij)) dmj vj_priv n (fi ij) (fj ij), G ij vk_priv)) t (zeros, zeros)) p =
      (\<Sum>ij\<leftarrow>t. fvj (ptr_add eri (off ij)) dmj zeros n (fi ij) (fj ij) p)" for t p
    unfolding fold_pair_split fst_conv
    by (subst thread_sum1 [of "\<lambda>ij a. fvj (ptr_add eri (off ij)) dmj a n (fi ij) (fj ij)"])
      (simp_all add: a zeros_def)
  show ?thesis
    unfolding omp_region_apply fst_conv t sum_list_sched [OF assms(2)] ..
qed

lemma region_snd:
  assumes "accumulating fvk" and "valid_sched m sched"
  shows "snd (omp_region n (\<lambda>ij (vj_priv, vk_priv).
      (F ij vj_priv, fvk (ptr_add eri (off ij)) dmk vk_priv n (fi ij) (fj ij))) sched (vj, vk)) =
    (\<lambda>p. if p < n * n
          then vk p + (\<Sum>ij<m. fvk (ptr_add eri (off ij)) dmk zeros n (fi ij) (fj ij) p)
          else vk p)"
proof -
  have a: "fvk e dm (padd a w) n i j = padd (fvk e dm a n i j) w" for e dm a w i j
    using assms(1) unfolding accumulating_def by blast
  have t: "snd (fold (\<lambda>ij (vj_priv, vk_priv).
        (F ij vj_priv, fvk (ptr_add eri (off ij)) dmk vk_priv n (fi ij) (fj ij))) t (zeros, zeros)) p =
      (\<Sum>ij\<leftarrow>t. fvk (ptr_add eri (off ij)) dmk zeros n (fi ij) (fj ij) p)" for t p
    unfolding fold_pair_split snd_conv
    by (subst thread_sum1 [of "\<lambda>ij a. fvk (ptr_add eri (off ij)) dmk a n (fi ij) (fj ij)"])
      (simp_all add: a zeros_def)
  show ?thesis
    unfolding omp_region_apply snd_conv t sum_list_sched [OF assms(2)] ..
qed

section \<open>Loops as sums\<close>

lemma acc_hit: "acc p x v = (\<lambda>q. v q + hit q p x)"
  by (auto simp: acc_def hit_def fun_eq_iff)

lemma accs_hit: "accs us v = (\<lambda>q. v q + (\<Sum>u\<leftarrow>us. hit q (fst u) (snd u)))"
  by (induction us arbitrary: v) (simp_all add: acc_hit fun_eq_iff)

lemma fold_counter_sum:
  assumes "\<And>l c v. body l (c, v) = (c + inc l, \<lambda>q. v q + d l c q)"
  shows "fold body [a..<b] (c0, v0) =
    (c0 + (\<Sum>l = a..<b. inc l),
     \<lambda>q. v0 q + (\<Sum>l = a..<b. d l (c0 + (\<Sum>l' = a..<l. inc l')) q))"
proof (induction b)
  case 0
  show ?case by simp
next
  case (Suc b)
  show ?case
  proof (cases "a \<le> b")
    case True
    then have "fold body [a..<Suc b] (c0, v0) = body b (fold body [a..<b] (c0, v0))"
      by simp
    also have "\<dots> = body b (c0 + (\<Sum>l = a..<b. inc l),
        \<lambda>q. v0 q + (\<Sum>l = a..<b. d l (c0 + (\<Sum>l' = a..<l. inc l')) q))"
      unfolding Suc ..
    also have "\<dots> = (c0 + (\<Sum>l = a..<Suc b. inc l),
        \<lambda>q. v0 q + (\<Sum>l = a..<Suc b. d l (c0 + (\<Sum>l' = a..<l. inc l')) q))"
      unfolding assms using True by (simp add: fun_eq_iff add.assoc)
    finally show ?thesis .
  next
    case False
    then show ?thesis by simp
  qed
qed

lemma fold_plain_sum:
  assumes "\<And>l v. body l v = (\<lambda>q. v q + d l q)"
  shows "fold body [a..<b] v0 = (\<lambda>q. v0 q + (\<Sum>l = a..<b. d l q))"
proof (induction b)
  case 0
  show ?case by simp
next
  case (Suc b)
  show ?case
  proof (cases "a \<le> b")
    case True
    then have "fold body [a..<Suc b] v0 = body b (fold body [a..<b] v0)"
      by simp
    also have "\<dots> = (\<lambda>q. v0 q + (\<Sum>l = a..<Suc b. d l q))"
      unfolding Suc assms using True by (simp add: fun_eq_iff add.assoc)
    finally show ?thesis .
  next
    case False
    then show ?thesis by simp
  qed
qed

lemma sum_Suc_double: "2 * (\<Sum>k = 0..<m. k + 1) = m * (m + 1)" for m :: nat
  by (induction m) simp_all

lemma sum_Suc_tri: "(\<Sum>k = 0..<m. k + 1) = m * (m + 1) div 2" for m :: nat
  using sum_Suc_double [of m] by linarith

lemma tri_eq: "tri a b = (\<Sum>k = 0..<a. k + 1) + b"
  unfolding tri_def sum_Suc_tri ..

lemma ddot_sum: "ddot n x incx y incy = (\<Sum>i<n. x (i * incx) * y (i * incy))"
proof -
  have "fold (\<lambda>i s. s + x (i * incx) * y (i * incy)) [0..<n] s0 =
      s0 + (\<Sum>i<n. x (i * incx) * y (i * incy))" for s0
    by (induction n) simp_all
  then show ?thesis by (simp add: ddot_def)
qed

lemma sum_split_add:
  "(\<Sum>p<a + m. f p) = (\<Sum>p<a. f p) + (\<Sum>l<m. f (a + l))" for f :: "nat \<Rightarrow> real"
  by (induction m) (simp_all add: add.assoc)

lemma sum_rows: "(\<Sum>p<a * m. f p) = (\<Sum>k<a. \<Sum>l<m. f (k * m + l))" for f :: "nat \<Rightarrow> real"
proof (induction a)
  case 0
  show ?case by simp
next
  case (Suc a)
  have "(\<Sum>p<Suc a * m. f p) = (\<Sum>p<a * m + m. f p)"
    by (simp add: add.commute)
  also have "\<dots> = (\<Sum>p<a * m. f p) + (\<Sum>l<m. f (a * m + l))"
    by (rule sum_split_add)
  finally show ?case by (simp add: Suc)
qed

lemma sum_hit: "p < m \<Longrightarrow> (\<Sum>ij<m. hit p ij (g ij)) = g p"
  by (simp add: hit_def)

lemma div_mod_cell: "ij div n * n + (ij - ij div n * n) = ij" for ij :: nat
  by (simp add: div_times_less_eq_dividend)

lemma cell_less: "i < n \<Longrightarrow> j < n \<Longrightarrow> i * n + j < n * n" for i :: nat
proof -
  assume a: "i < n" "j < n"
  then have "i * n + j < i * n + n" by simp
  also have "\<dots> = Suc i * n" by simp
  also have "\<dots> \<le> n * n" using a by (simp only: Suc_le_eq [symmetric] mult_le_mono1 Suc_leI)
  finally show ?thesis .
qed

section \<open>The drivers as sums over the loop indices\<close>

lemma kernels_accumulating:
  assumes "f \<in> set kernels"
  shows "accumulating f"
proof -
  from assms consider
      "f = CVHFnrs8_ij_s2kl_o0" | "f = CVHFnrs4_ij_s2kl_o0" | "f = CVHFnrs2kl_kl_s1ij_o0"
    | "f = CVHFnrs8_jk_s1il_o0" | "f = CVHFnrs8_jk_s2il_o0" | "f = CVHFnrs4_jk_s1il_o0"
    | "f = CVHFnrs4_il_s1jk_o0" | "f = CVHFnrs4_jk_s2il_o0" | "f = CVHFnrs4_il_s2jk_o0"
    | "f = CVHFnrs8_ij_s2kl" | "f = CVHFnrs8_tridm_vj" | "f = CVHFnrs8_jk_s1il"
    | "f = CVHFnrs8_jk_s2il" | "f = CVHFnrs4_jk_s1il" | "f = CVHFnrs4_il_s1jk"
    | "f = CVHFnrs4_jk_s2il" | "f = CVHFnrs4_il_s2jk" | "f = CVHFnrs4_ij_s2kl"
    | "f = CVHFnrs4_kl_s2ij" | "f = CVHFnrs1_ij_s1kl" | "f = CVHFnrs1_kl_s1ij"
    | "f = CVHFnrs1_jk_s1il" | "f = CVHFnrs1_il_s1jk" | "f = CVHFnrs2ij_ij_s1kl"
    | "f = CVHFnrs2ij_kl_s2ij" | "f = CVHFnrs2ij_jk_s1il" | "f = CVHFnrs2ij_il_s1jk"
    | "f = CVHFnrs2kl_ij_s2kl" | "f = CVHFnrs2kl_kl_s1ij" | "f = CVHFnrs2kl_jk_s1il"
    | "f = CVHFnrs2kl_il_s1jk"
    unfolding kernels_def by auto
  then show ?thesis
    by cases
      (simp_all only: accumulating_def
        CVHFnrs8_ij_s2kl_o0_padd CVHFnrs4_ij_s2kl_o0_padd CVHFnrs2kl_kl_s1ij_o0_padd
        CVHFnrs8_jk_s1il_o0_padd CVHFnrs8_jk_s2il_o0_padd CVHFnrs4_jk_s1il_o0_padd
        CVHFnrs4_il_s1jk_o0_padd CVHFnrs4_jk_s2il_o0_padd CVHFnrs4_il_s2jk_o0_padd
        CVHFnrs8_ij_s2kl_padd CVHFnrs8_tridm_vj_padd CVHFnrs8_jk_s1il_padd
        CVHFnrs8_jk_s2il_padd CVHFnrs4_jk_s1il_padd CVHFnrs4_il_s1jk_padd
        CVHFnrs4_jk_s2il_padd CVHFnrs4_il_s2jk_padd CVHFnrs4_ij_s2kl_padd
        CVHFnrs4_kl_s2ij_padd CVHFnrs1_ij_s1kl_padd CVHFnrs1_kl_s1ij_padd
        CVHFnrs1_jk_s1il_padd CVHFnrs1_il_s1jk_padd CVHFnrs2ij_ij_s1kl_padd
        CVHFnrs2ij_kl_s2ij_padd CVHFnrs2ij_jk_s1il_padd CVHFnrs2ij_il_s1jk_padd
        CVHFnrs2kl_ij_s2kl_padd CVHFnrs2kl_kl_s1ij_padd CVHFnrs2kl_jk_s1il_padd
        CVHFnrs2kl_il_s1jk_padd simp_thms)
qed

lemma region_valid_kernels:
  assumes "accumulating fvj" and "accumulating fvk" and "valid_sched m sched"
  shows "omp_region n (\<lambda>ij (vj_priv, vk_priv).
      (fvj (ptr_add eri (off ij)) dmj vj_priv n (fi ij) (fj ij),
       fvk (ptr_add eri (off ij)) dmk vk_priv n (fi ij) (fj ij))) sched (vj, vk) =
    ((\<lambda>p. if p < n * n
           then vj p + (\<Sum>ij<m. fvj (ptr_add eri (off ij)) dmj zeros n (fi ij) (fj ij) p)
           else vj p),
     (\<lambda>p. if p < n * n
           then vk p + (\<Sum>ij<m. fvk (ptr_add eri (off ij)) dmk zeros n (fi ij) (fj ij) p)
           else vk p))"
  by (rule prod_eqI)
    (simp_all only: fst_conv snd_conv region_fst [OF assms(1,3)] region_snd [OF assms(2,3)])

lemma nrs8_drv_eq:
  assumes "accumulating fvj" and "accumulating fvk" and "valid_sched m sched"
  shows "CVHFnrs8_incore_drv sched eri dmj vj dmk vk n fvj fvk =
    ((\<lambda>p. if p < n * n
           then (\<Sum>ij<m. fvj (ptr_add eri (ij * (ij + 1) div 2)) dmj zeros n
                   (tri_unfold_i ij) (ij - tri_unfold_i ij * (tri_unfold_i ij + 1) div 2) p)
           else vj p),
     (\<lambda>p. if p < n * n
           then (\<Sum>ij<m. fvk (ptr_add eri (ij * (ij + 1) div 2)) dmk zeros n
                   (tri_unfold_i ij) (ij - tri_unfold_i ij * (tri_unfold_i ij + 1) div 2) p)
           else vk p))"
  unfolding CVHFnrs8_incore_drv_def Let_def
    region_valid_kernels [OF assms, where off = "\<lambda>ij. ij * (ij + 1) div 2" and fi = tri_unfold_i
      and fj = "\<lambda>ij. ij - tri_unfold_i ij * (tri_unfold_i ij + 1) div 2"]
  by (simp add: memset0_def cong: if_cong)

lemma nrs4_drv_eq:
  assumes "accumulating fvj" and "accumulating fvk" and "valid_sched m sched"
  shows "CVHFnrs4_incore_drv sched eri dmj vj dmk vk n fvj fvk =
    ((\<lambda>p. if p < n * n
           then (\<Sum>ij<m. fvj (ptr_add eri (ij * (n * (n + 1) div 2))) dmj zeros n
                   (tri_unfold_i ij) (ij - tri_unfold_i ij * (tri_unfold_i ij + 1) div 2) p)
           else vj p),
     (\<lambda>p. if p < n * n
           then (\<Sum>ij<m. fvk (ptr_add eri (ij * (n * (n + 1) div 2))) dmk zeros n
                   (tri_unfold_i ij) (ij - tri_unfold_i ij * (tri_unfold_i ij + 1) div 2) p)
           else vk p))"
  unfolding CVHFnrs4_incore_drv_def Let_def
    region_valid_kernels [OF assms, where off = "\<lambda>ij. ij * (n * (n + 1) div 2)" and fi = "tri_unfold_i"
      and fj = "\<lambda>ij. ij - tri_unfold_i ij * (tri_unfold_i ij + 1) div 2"]
  by (simp add: memset0_def cong: if_cong)

lemma nrs2ij_drv_eq:
  assumes "accumulating fvj" and "accumulating fvk" and "valid_sched m sched"
  shows "CVHFnrs2ij_incore_drv sched eri dmj vj dmk vk n fvj fvk =
    ((\<lambda>p. if p < n * n
           then (\<Sum>ij<m. fvj (ptr_add eri (ij * n * n)) dmj zeros n
                   (tri_unfold_i ij) (ij - tri_unfold_i ij * (tri_unfold_i ij + 1) div 2) p)
           else vj p),
     (\<lambda>p. if p < n * n
           then (\<Sum>ij<m. fvk (ptr_add eri (ij * n * n)) dmk zeros n
                   (tri_unfold_i ij) (ij - tri_unfold_i ij * (tri_unfold_i ij + 1) div 2) p)
           else vk p))"
  unfolding CVHFnrs2ij_incore_drv_def Let_def
    region_valid_kernels [OF assms, where off = "\<lambda>ij. ij * n * n" and fi = "tri_unfold_i"
      and fj = "\<lambda>ij. ij - tri_unfold_i ij * (tri_unfold_i ij + 1) div 2"]
  by (simp add: memset0_def cong: if_cong)

lemma nrs2kl_drv_eq:
  assumes "accumulating fvj" and "accumulating fvk" and "valid_sched m sched"
  shows "CVHFnrs2kl_incore_drv sched eri dmj vj dmk vk n fvj fvk =
    ((\<lambda>p. if p < n * n
           then (\<Sum>ij<m. fvj (ptr_add eri (ij * (n * (n + 1) div 2))) dmj zeros n
                   (ij div n) (ij - ij div n * n) p)
           else vj p),
     (\<lambda>p. if p < n * n
           then (\<Sum>ij<m. fvk (ptr_add eri (ij * (n * (n + 1) div 2))) dmk zeros n
                   (ij div n) (ij - ij div n * n) p)
           else vk p))"
  unfolding CVHFnrs2kl_incore_drv_def Let_def
    region_valid_kernels [OF assms, where off = "\<lambda>ij. ij * (n * (n + 1) div 2)" and fi = "\<lambda>ij. ij div n"
      and fj = "\<lambda>ij. ij - ij div n * n"]
  by (simp add: memset0_def cong: if_cong)

lemma nrs1_drv_eq:
  assumes "accumulating fvj" and "accumulating fvk" and "valid_sched m sched"
  shows "CVHFnrs1_incore_drv sched eri dmj vj dmk vk n fvj fvk =
    ((\<lambda>p. if p < n * n
           then (\<Sum>ij<m. fvj (ptr_add eri (ij * n * n)) dmj zeros n
                   (ij div n) (ij - ij div n * n) p)
           else vj p),
     (\<lambda>p. if p < n * n
           then (\<Sum>ij<m. fvk (ptr_add eri (ij * n * n)) dmk zeros n
                   (ij div n) (ij - ij div n * n) p)
           else vk p))"
  unfolding CVHFnrs1_incore_drv_def Let_def
    region_valid_kernels [OF assms, where off = "\<lambda>ij. ij * n * n" and fi = "\<lambda>ij. ij div n"
      and fj = "\<lambda>ij. ij - ij div n * n"]
  by (simp add: memset0_def cong: if_cong)

lemma nrs1_drv_fst:
  assumes "accumulating fvj" and "valid_sched (n * n) sched" and "p < n * n"
  shows "fst (CVHFnrs1_incore_drv sched eri dmj vj dmk vk n fvj fvk) p =
    (\<Sum>ij<n * n. fvj (ptr_add eri (ij * n * n)) dmj zeros n (ij div n) (ij - ij div n * n) p)"
  unfolding CVHFnrs1_incore_drv_def Let_def
    region_fst [OF assms(1,2), where off = "\<lambda>ij. ij * n * n" and fi = "\<lambda>ij. ij div n"
      and fj = "\<lambda>ij. ij - ij div n * n"]
  using assms(3) by (simp add: memset0_def)

lemma nrs8_drv_fst:
  assumes "accumulating fvj" and "valid_sched (npair_of n) sched" and "p < n * n"
  shows "fst (CVHFnrs8_incore_drv sched eri dmj vj dmk vk n fvj fvk) p =
    (\<Sum>ij<npair_of n. fvj (ptr_add eri (ij * (ij + 1) div 2)) dmj zeros n
        (tri_unfold_i ij) (ij - tri_unfold_i ij * (tri_unfold_i ij + 1) div 2) p)"
  unfolding CVHFnrs8_incore_drv_def Let_def
    region_fst [OF assms(1,2), where off = "\<lambda>ij. ij * (ij + 1) div 2" and fi = tri_unfold_i
      and fj = "\<lambda>ij. ij - tri_unfold_i ij * (tri_unfold_i ij + 1) div 2"]
  using assms(3) by (simp add: memset0_def)

lemma nrs8_drv_snd:
  assumes "accumulating fvk" and "valid_sched (npair_of n) sched" and "p < n * n"
  shows "snd (CVHFnrs8_incore_drv sched eri dmj vj dmk vk n fvj fvk) p =
    (\<Sum>ij<npair_of n. fvk (ptr_add eri (ij * (ij + 1) div 2)) dmk zeros n
        (tri_unfold_i ij) (ij - tri_unfold_i ij * (tri_unfold_i ij + 1) div 2) p)"
  unfolding CVHFnrs8_incore_drv_def Let_def
    region_snd [OF assms(1,2), where off = "\<lambda>ij. ij * (ij + 1) div 2" and fi = tri_unfold_i
      and fj = "\<lambda>ij. ij - tri_unfold_i ij * (tri_unfold_i ij + 1) div 2"]
  using assms(3) by (simp add: memset0_def)

section \<open>\<^verbatim>\<open>CVHFnrs8_jk_s1il_o0\<close> as a sum of contributions\<close>

lemma sum_const_one: "(\<Sum>l = a..<b. 1) = b - a" for a b :: nat
  by simp

lemma s8_jk_s1il_gt:
  assumes "jc < ic"
  shows "CVHFnrs8_jk_s1il_o0 eri dm vk nao ic jc = (\<lambda>q. vk q +
    ((\<Sum>k = 0..<ic.
        (\<Sum>l = 0..<k.
           kcon nao dm (eri (tri k l)) q jc ic k l + kcon nao dm (eri (tri k l)) q ic jc k l +
           kcon nao dm (eri (tri k l)) q jc ic l k + kcon nao dm (eri (tri k l)) q ic jc l k +
           kcon nao dm (eri (tri k l)) q l k ic jc + kcon nao dm (eri (tri k l)) q k l ic jc +
           kcon nao dm (eri (tri k l)) q l k jc ic + kcon nao dm (eri (tri k l)) q k l jc ic) +
        (kcon nao dm (eri (tri k k)) q jc ic k k + kcon nao dm (eri (tri k k)) q ic jc k k +
         kcon nao dm (eri (tri k k)) q k k ic jc + kcon nao dm (eri (tri k k)) q k k jc ic)) +
     (\<Sum>l = 0..<jc.
        kcon nao dm (eri (tri ic l)) q jc ic ic l + kcon nao dm (eri (tri ic l)) q ic jc ic l +
        kcon nao dm (eri (tri ic l)) q jc ic l ic + kcon nao dm (eri (tri ic l)) q ic jc l ic +
        kcon nao dm (eri (tri ic l)) q l ic ic jc + kcon nao dm (eri (tri ic l)) q ic l ic jc +
        kcon nao dm (eri (tri ic l)) q l ic jc ic + kcon nao dm (eri (tri ic l)) q ic l jc ic) +
     (kcon nao dm (eri (tri ic jc)) q jc ic ic jc + kcon nao dm (eri (tri ic jc)) q ic jc ic jc +
      kcon nao dm (eri (tri ic jc)) q jc ic jc ic + kcon nao dm (eri (tri ic jc)) q ic jc jc ic)))"
proof -
  define B8 where "B8 = (\<lambda>e k l q.
      kcon nao dm e q jc ic k l + kcon nao dm e q ic jc k l +
      kcon nao dm e q jc ic l k + kcon nao dm e q ic jc l k +
      kcon nao dm e q l k ic jc + kcon nao dm e q k l ic jc +
      kcon nao dm e q l k jc ic + kcon nao dm e q k l jc ic)"
  define B4 where "B4 = (\<lambda>e k q.
      kcon nao dm e q jc ic k k + kcon nao dm e q ic jc k k +
      kcon nao dm e q k k ic jc + kcon nao dm e q k k jc ic)"
  define inner where "inner = (\<lambda>k l (kl, vk).
      (kl + 1, accs [(jc * nao + l, eri kl * dm (ic * nao + k)),
                     (ic * nao + l, eri kl * dm (jc * nao + k)),
                     (jc * nao + k, eri kl * dm (ic * nao + l)),
                     (ic * nao + k, eri kl * dm (jc * nao + l)),
                     (l * nao + jc, eri kl * dm (k * nao + ic)),
                     (k * nao + jc, eri kl * dm (l * nao + ic)),
                     (l * nao + ic, eri kl * dm (k * nao + jc)),
                     (k * nao + ic, eri kl * dm (l * nao + jc))] vk))"
  have inner_step: "inner k l (c, v) = (c + 1, \<lambda>q. v q + B8 (eri c) k l q)" for k l c v
    by (simp add: inner_def accs_hit B8_def kcon_def fun_eq_iff)
  have inner_loop: "fold (inner k) [0..<m] (c, v) =
      (c + m, \<lambda>q. v q + (\<Sum>l = 0..<m. B8 (eri (c + l)) k l q))" for k m c v
    using fold_counter_sum [of "inner k" "\<lambda>_. 1" "\<lambda>l c. B8 (eri c) k l" 0 m c v, OF inner_step]
    by simp
  define outer where "outer = (\<lambda>k (kl, vk).
      let (kl, vk) = fold (inner k) [0..<k] (kl, vk)
      in (kl + 1, accs [(jc * nao + k, eri kl * dm (ic * nao + k)),
                        (ic * nao + k, eri kl * dm (jc * nao + k)),
                        (k * nao + jc, eri kl * dm (k * nao + ic)),
                        (k * nao + ic, eri kl * dm (k * nao + jc))] vk))"
  have outer_step: "outer k (c, v) = (c + (k + 1),
      \<lambda>q. v q + ((\<Sum>l = 0..<k. B8 (eri (c + l)) k l q) + B4 (eri (c + k)) k q))" for k c v
    by (simp add: outer_def inner_loop accs_hit B4_def kcon_def fun_eq_iff)
  have outer_loop: "fold outer [0..<m] (0, v) =
      (tri m 0, \<lambda>q. v q + (\<Sum>k = 0..<m.
          (\<Sum>l = 0..<k. B8 (eri (tri k l)) k l q) + B4 (eri (tri k k)) k q))" for m v
    using fold_counter_sum [of outer "\<lambda>k. k + 1"
        "\<lambda>k c q. (\<Sum>l = 0..<k. B8 (eri (c + l)) k l q) + B4 (eri (c + k)) k q" 0 m 0 v,
        OF outer_step]
    by (simp add: tri_eq)
  have "CVHFnrs8_jk_s1il_o0 eri dm vk nao ic jc =
      (let (kl, vk) = fold outer [0..<ic] (0, vk);
           (kl, vk) = fold (inner ic) [0..<jc] (kl, vk)
       in accs [(jc * nao + jc, eri kl * dm (ic * nao + ic)),
                (ic * nao + jc, eri kl * dm (jc * nao + ic)),
                (jc * nao + ic, eri kl * dm (ic * nao + jc)),
                (ic * nao + ic, eri kl * dm (jc * nao + jc))] vk)"
    using assms by (simp add: CVHFnrs8_jk_s1il_o0_def outer_def inner_def Let_def del: accs.simps)
  also have "\<dots> = (\<lambda>q. vk q +
    ((\<Sum>k = 0..<ic. (\<Sum>l = 0..<k. B8 (eri (tri k l)) k l q) + B4 (eri (tri k k)) k q) +
     (\<Sum>l = 0..<jc. B8 (eri (tri ic l)) ic l q) +
     (kcon nao dm (eri (tri ic jc)) q jc ic ic jc + kcon nao dm (eri (tri ic jc)) q ic jc ic jc +
      kcon nao dm (eri (tri ic jc)) q jc ic jc ic + kcon nao dm (eri (tri ic jc)) q ic jc jc ic)))"
    by (simp add: outer_loop inner_loop accs_hit kcon_def fun_eq_iff tri_def)
  finally show ?thesis
    unfolding B8_def B4_def .
qed

lemma s8_jk_s1il_eq:
  "CVHFnrs8_jk_s1il_o0 eri dm vk nao ic ic = (\<lambda>q. vk q +
    ((\<Sum>k = 0..<ic.
        (\<Sum>l = 0..<k.
           kcon nao dm (eri (tri k l)) q ic ic k l + kcon nao dm (eri (tri k l)) q ic ic l k +
           kcon nao dm (eri (tri k l)) q l k ic ic + kcon nao dm (eri (tri k l)) q k l ic ic) +
        (kcon nao dm (eri (tri k k)) q ic ic k k + kcon nao dm (eri (tri k k)) q k k ic ic)) +
     (\<Sum>l = 0..<ic.
        kcon nao dm (eri (tri ic l)) q ic ic ic l + kcon nao dm (eri (tri ic l)) q ic ic l ic +
        kcon nao dm (eri (tri ic l)) q l ic ic ic + kcon nao dm (eri (tri ic l)) q ic l ic ic) +
     kcon nao dm (eri (tri ic ic)) q ic ic ic ic))"
proof -
  define B4 where "B4 = (\<lambda>e k l q.
      kcon nao dm e q ic ic k l + kcon nao dm e q ic ic l k +
      kcon nao dm e q l k ic ic + kcon nao dm e q k l ic ic)"
  define B2 where "B2 = (\<lambda>e k q. kcon nao dm e q ic ic k k + kcon nao dm e q k k ic ic)"
  define C4 where "C4 = (\<lambda>e l q.
      kcon nao dm e q ic ic ic l + kcon nao dm e q ic ic l ic +
      kcon nao dm e q l ic ic ic + kcon nao dm e q ic l ic ic)"
  define inner where "inner = (\<lambda>k l (kl, vk).
      (kl + 1, accs [(ic * nao + l, eri kl * dm (ic * nao + k)),
                     (ic * nao + k, eri kl * dm (ic * nao + l)),
                     (l * nao + ic, eri kl * dm (k * nao + ic)),
                     (k * nao + ic, eri kl * dm (l * nao + ic))] vk))"
  have inner_step: "inner k l (c, v) = (c + 1, \<lambda>q. v q + B4 (eri c) k l q)" for k l c v
    by (simp add: inner_def accs_hit B4_def kcon_def fun_eq_iff)
  have inner_loop: "fold (inner k) [0..<m] (c, v) =
      (c + m, \<lambda>q. v q + (\<Sum>l = 0..<m. B4 (eri (c + l)) k l q))" for k m c v
    using fold_counter_sum [of "inner k" "\<lambda>_. 1" "\<lambda>l c. B4 (eri c) k l" 0 m c v, OF inner_step]
    by simp
  define outer where "outer = (\<lambda>k (kl, vk).
      let (kl, vk) = fold (inner k) [0..<k] (kl, vk)
      in (kl + 1, accs [(ic * nao + k, eri kl * dm (ic * nao + k)),
                        (k * nao + ic, eri kl * dm (k * nao + ic))] vk))"
  have outer_step: "outer k (c, v) = (c + (k + 1),
      \<lambda>q. v q + ((\<Sum>l = 0..<k. B4 (eri (c + l)) k l q) + B2 (eri (c + k)) k q))" for k c v
    by (simp add: outer_def inner_loop accs_hit B2_def kcon_def fun_eq_iff)
  have outer_loop: "fold outer [0..<m] (0, v) =
      (tri m 0, \<lambda>q. v q + (\<Sum>k = 0..<m.
          (\<Sum>l = 0..<k. B4 (eri (tri k l)) k l q) + B2 (eri (tri k k)) k q))" for m v
    using fold_counter_sum [of outer "\<lambda>k. k + 1"
        "\<lambda>k c q. (\<Sum>l = 0..<k. B4 (eri (c + l)) k l q) + B2 (eri (c + k)) k q" 0 m 0 v,
        OF outer_step]
    by (simp add: tri_eq)
  define last where "last = (\<lambda>l (kl, vk).
      (kl + 1, accs [(ic * nao + l, eri kl * dm (ic * nao + ic)),
                     (ic * nao + ic, eri kl * dm (ic * nao + l)),
                     (l * nao + ic, eri kl * dm (ic * nao + ic)),
                     (ic * nao + ic, eri kl * dm (l * nao + ic))] vk))"
  have last_step: "last l (c, v) = (c + 1, \<lambda>q. v q + C4 (eri c) l q)" for l c v
    by (simp add: last_def accs_hit C4_def kcon_def fun_eq_iff)
  have last_loop: "fold last [0..<m] (c, v) =
      (c + m, \<lambda>q. v q + (\<Sum>l = 0..<m. C4 (eri (c + l)) l q))" for m c v
    using fold_counter_sum [of last "\<lambda>_. 1" "\<lambda>l c. C4 (eri c) l" 0 m c v, OF last_step]
    by simp
  have "CVHFnrs8_jk_s1il_o0 eri dm vk nao ic ic =
      (let (kl, vk) = fold outer [0..<ic] (0, vk);
           (kl, vk) = fold last [0..<ic] (kl, vk)
       in acc (ic * nao + ic) (eri kl * dm (ic * nao + ic)) vk)"
    by (simp add: CVHFnrs8_jk_s1il_o0_def outer_def inner_def last_def Let_def del: accs.simps)
  also have "\<dots> = (\<lambda>q. vk q +
    ((\<Sum>k = 0..<ic. (\<Sum>l = 0..<k. B4 (eri (tri k l)) k l q) + B2 (eri (tri k k)) k q) +
     (\<Sum>l = 0..<ic. C4 (eri (tri ic l)) l q) +
     kcon nao dm (eri (tri ic ic)) q ic ic ic ic))"
    by (simp add: outer_loop last_loop acc_hit kcon_def fun_eq_iff tri_def)
  finally show ?thesis
    unfolding B4_def B2_def C4_def .
qed

lemma cell_eq_iff:
  assumes "b < n" and "w < n"
  shows "a * n + b = x * n + w \<longleftrightarrow> a = x \<and> b = (w::nat)"
proof
  assume e: "a * n + b = x * n + w"
  have "(a * n + b) div n = a" "(x * n + w) div n = x"
    using assms by simp_all
  then have "a = x" using e by simp
  then show "a = x \<and> b = w" using e by simp
qed simp

lemma kcon_other:
  assumes "b < nao" and "w < nao" and "x \<noteq> a \<or> w \<noteq> b"
  shows "kcon nao dm e (a * nao + b) x y z w = 0"
  using assms by (auto simp: kcon_def hit_def cell_eq_iff)

section \<open>The compact index and its unfolding\<close>

lemma real_tri: "real (tri i j) = real i * (real i + 1) / 2 + real j"
proof -
  have "even (i * (i + 1))" by simp
  then have "real (i * (i + 1) div 2) = real (i * (i + 1)) / 2"
    by (simp add: real_of_nat_div)
  then show ?thesis by (simp add: tri_def algebra_simps)
qed

lemma npair_Suc: "npair_of (Suc n) = npair_of n + n + 1"
proof -
  have "Suc n * (Suc n + 1) = n * (n + 1) + 2 * (n + 1)" by simp
  moreover have "even (n * (n + 1))" by simp
  ultimately show ?thesis unfolding npair_of_def by (metis Suc_eq_plus1 add.assoc div_mult_self4 zero_neq_numeral add.commute)
qed

lemma tri_npair: "tri i j = npair_of i + j"
  by (simp add: tri_def npair_of_def)

lemma tri_decomp:
  assumes "idx < npair_of n"
  shows "\<exists>i<n. \<exists>j\<le>i. idx = tri i j"
  using assms
proof (induction n)
  case 0
  then show ?case by (simp add: npair_of_def)
next
  case (Suc n)
  show ?case
  proof (cases "idx < npair_of n")
    case True
    with Suc.IH show ?thesis using less_Suc_eq by blast
  next
    case False
    then have "idx = tri n (idx - npair_of n)" "idx - npair_of n \<le> n"
      using Suc.prems by (simp_all add: tri_npair npair_Suc)
    then show ?thesis by blast
  qed
qed

lemma int_safe_bound:
  fixes n :: nat
  assumes "n * (n + 1) \<le> 2147483647"
  shows "n \<le> 46340"
proof (rule ccontr)
  assume "\<not> n \<le> 46340"
  then have "46341 \<le> n" by simp
  then have "46341 * (46341 + 1) \<le> n * (n + 1)"
    by (intro mult_le_mono) simp_all
  with assms show False by simp
qed

lemma unfold_fl_tri:
  assumes rnd: "standard_model rnd" and ji: "j \<le> i" and i: "i \<le> 46340"
  shows "tri_unfold_fl rnd (tri i j) = i"
proof -
  define u :: real where "u = 1 / 2 ^ 53"
  define x :: real where "x = 2 * real (tri i j) + 0.25"
  define S where "S = sqrt x"
  define a where "a = rnd x"
  define b where "b = rnd (sqrt a)"
  define c where "c = rnd (b - 0.5)"
  define e where "e = rnd (1 / 10000000)"
  define r where "r = rnd (c + e)"
  have rn: "\<bar>rnd y - y\<bar> \<le> \<bar>y\<bar> * u" for y
    using rnd unfolding standard_model_def u_def by simp
  have u0: "0 < u" and u1: "u * 100000 \<le> 1 / 1000000000"
    unfolding u_def by simp_all
  have ri: "real i \<le> 46340" using i by simp
  have rj: "real j \<le> real i" using ji by simp
  have xe: "x = real i * real i + real i + 2 * real j + 1 / 4"
    unfolding x_def real_tri by (simp add: field_simps)
  have xl: "(real i + 1 / 2)\<^sup>2 \<le> x"
    unfolding xe using rj by (simp add: power2_eq_square algebra_simps)
  have xu: "x \<le> (real i + 3 / 2)\<^sup>2 - 2"
    unfolding xe using rj by (simp add: power2_eq_square algebra_simps)
  have x0: "0 < x" unfolding x_def by simp
  have Sl: "real i + 1 / 2 \<le> S"
    unfolding S_def using xl by (intro real_le_rsqrt)
  have S0: "0 < S" unfolding S_def using x0 by simp
  have SS: "S\<^sup>2 = x" unfolding S_def using x0 by simp
  have Su: "S < real i + 3 / 2 - 2 / 10000000"
  proof -
    have "2 * (2 / 10000000) * (real i + 3 / 2) \<le> 2 * (2 / 10000000) * (46340 + 3 / 2)"
      using ri by (intro mult_left_mono) simp_all
    also have "\<dots> < 2" by simp
    finally have "(real i + 3 / 2)\<^sup>2 - 2 < (real i + 3 / 2 - 2 / 10000000)\<^sup>2"
      by (simp add: power2_eq_square algebra_simps)
    with xu have "x < (real i + 3 / 2 - 2 / 10000000)\<^sup>2" by simp
    moreover have "0 \<le> real i + 3 / 2 - 2 / 10000000" by simp
    ultimately show ?thesis
      unfolding S_def by (intro real_less_lsqrt) simp_all
  qed
  have SM: "S \<le> 50000" using Su ri by simp
  text \<open>the argument of the square root\<close>
  have ax: "\<bar>a - x\<bar> \<le> x * u"
    using rn [of x] x0 unfolding a_def by simp
  have al: "x * (1 - u)\<^sup>2 \<le> a"
  proof -
    have "(1 - u)\<^sup>2 \<le> 1 - u"
      using u0 unfolding u_def by (simp add: power2_eq_square algebra_simps)
    then have "x * (1 - u)\<^sup>2 \<le> x * (1 - u)" using x0 by simp
    also have "\<dots> \<le> a" using ax by (simp add: algebra_simps abs_le_iff)
    finally show ?thesis .
  qed
  have au: "a \<le> x * (1 + u)\<^sup>2"
  proof -
    have "1 + u \<le> (1 + u)\<^sup>2"
      using u0 by (simp add: power2_eq_square algebra_simps)
    then have "x * (1 + u) \<le> x * (1 + u)\<^sup>2" using x0 by simp
    moreover have "a \<le> x * (1 + u)" using ax by (simp add: algebra_simps abs_le_iff)
    ultimately show ?thesis by simp
  qed
  have ul: "0 \<le> 1 - u" unfolding u_def by simp
  have sl: "S * (1 - u) \<le> sqrt a"
  proof -
    have "(S * (1 - u))\<^sup>2 \<le> a" using al SS by (simp add: power_mult_distrib)
    then show ?thesis by (rule real_le_rsqrt)
  qed
  have su: "sqrt a \<le> S * (1 + u)"
  proof -
    have "a \<le> (S * (1 + u))\<^sup>2" using au SS by (simp add: power_mult_distrib)
    moreover have "0 \<le> S * (1 + u)" using S0 u0 by simp
    ultimately show ?thesis by (intro real_le_lsqrt) simp_all
  qed
  have Su': "S * u \<le> 1 / 1000000000"
  proof -
    have "S * u \<le> 50000 * u" using SM u0 by simp
    also have "\<dots> \<le> 1 / 1000000000" using u1 by simp
    finally show ?thesis .
  qed
  have "\<bar>sqrt a - S\<bar> \<le> S * u"
    using sl su by (simp add: algebra_simps abs_le_iff)
  then have sa: "\<bar>sqrt a - S\<bar> \<le> 1 / 1000000000"
    using Su' by linarith
  have "0 \<le> S * (1 - u)" using S0 ul by simp
  then have sa0: "0 \<le> sqrt a" "sqrt a \<le> 100000"
    using sl sa SM by linarith+
  have bs: "\<bar>b - sqrt a\<bar> \<le> 1 / 1000000000"
  proof -
    have "\<bar>b - sqrt a\<bar> \<le> \<bar>sqrt a\<bar> * u" unfolding b_def by (rule rn)
    also have "\<dots> \<le> 100000 * u" using sa0 u0 by simp
    also have "\<dots> \<le> 1 / 1000000000" using u1 by simp
    finally show ?thesis .
  qed
  have bS: "\<bar>b - S\<bar> \<le> 2 / 1000000000"
    using sa bs by linarith
  have b0: "\<bar>b - 0.5\<bar> \<le> 100000"
    using bS SM S0 by linarith
  have cb: "\<bar>c - (b - 0.5)\<bar> \<le> 1 / 1000000000"
  proof -
    have "\<bar>c - (b - 0.5)\<bar> \<le> \<bar>b - 0.5\<bar> * u" unfolding c_def by (rule rn)
    also have "\<dots> \<le> 100000 * u" using b0 u0 by simp
    also have "\<dots> \<le> 1 / 1000000000" using u1 by simp
    finally show ?thesis .
  qed
  have ee: "\<bar>e - 1 / 10000000\<bar> \<le> 1 / 1000000000"
  proof -
    have "\<bar>e - 1 / 10000000\<bar> \<le> \<bar>1 / 10000000\<bar> * u" unfolding e_def by (rule rn)
    also have "\<dots> \<le> 100000 * u" using u0 by simp
    also have "\<dots> \<le> 1 / 1000000000" using u1 by simp
    finally show ?thesis .
  qed
  have ce: "\<bar>c + e\<bar> \<le> 100000"
    using cb bS ee SM S0 by linarith
  have rc: "\<bar>r - (c + e)\<bar> \<le> 1 / 1000000000"
  proof -
    have "\<bar>r - (c + e)\<bar> \<le> \<bar>c + e\<bar> * u" unfolding r_def by (rule rn)
    also have "\<dots> \<le> 100000 * u" using ce u0 by simp
    also have "\<dots> \<le> 1 / 1000000000" using u1 by simp
    finally show ?thesis .
  qed
  have rS: "\<bar>r - (S - 0.5 + 1 / 10000000)\<bar> \<le> 5 / 1000000000"
    using rc cb bS ee by linarith
  have lo: "real i \<le> r" and hi: "r < real i + 1"
    using rS Sl Su by linarith+
  have "\<lfloor>r\<rfloor> = int i"
    using lo hi by (simp add: floor_unique)
  moreover have "0 \<le> r" using lo by simp
  ultimately have "nat (double_to_int r) = i"
    by (simp add: double_to_int_def)
  then show ?thesis
    unfolding tri_unfold_fl_def r_def c_def b_def a_def e_def x_def by simp
qed

lemma npair_mono: "a \<le> b \<Longrightarrow> npair_of a \<le> npair_of b"
  unfolding npair_of_def by (intro div_le_mono mult_le_mono) simp_all

lemma tri_inj:
  assumes "tri i j = tri i' j'" and "j \<le> i" and "j' \<le> i'"
  shows "i = i' \<and> j = j'"
proof -
  have lt: "tri a b < tri a' b'" if "a < a'" "b \<le> a" for a b a' b'
  proof -
    have "tri a b < npair_of (Suc a)" using that(2) by (simp add: tri_npair npair_Suc)
    also have "\<dots> \<le> npair_of a'" using that(1) by (intro npair_mono) simp
    also have "\<dots> \<le> tri a' b'" by (simp add: tri_npair)
    finally show ?thesis .
  qed
  have "i = i'"
  proof (rule ccontr)
    assume "i \<noteq> i'"
    then consider "i < i'" | "i' < i" by linarith
    then show False
      using lt [of i i' j j'] lt [of i' i j' j] assms by cases simp_all
  qed
  then show ?thesis using assms(1) by (simp add: tri_def)
qed

lemma tri_unfold_i_fl: "tri_unfold_i ij = tri_unfold_fl (\<lambda>x. x) ij"
  by (simp add: tri_unfold_i_def tri_unfold_fl_def)

lemma standard_model_exact: "standard_model (\<lambda>x. x)"
  by (simp add: standard_model_def)

lemma tri_unfold_i_tri:
  assumes "j \<le> i" and "i \<le> 46340"
  shows "tri_unfold_i (tri i j) = i"
  unfolding tri_unfold_i_fl by (rule unfold_fl_tri [OF standard_model_exact assms])

section \<open>Sums over triangles and over pairs of pairs\<close>

lemma npair_0 [simp]: "npair_of 0 = 0"
  by (simp add: npair_of_def)

lemma tri_i_bounds: "npair_of (tri_i q) \<le> q \<and> q < npair_of (Suc (tri_i q))"
proof (induction q)
  case 0
  show ?case by (simp add: npair_Suc)
next
  case (Suc q)
  then show ?case by (auto simp: npair_Suc)
qed

lemma tri_i_tri:
  assumes "j \<le> i"
  shows "tri_i (tri i j) = i" and "tri_j (tri i j) = j"
proof -
  define i' where "i' = tri_i (tri i j)"
  define j' where "j' = tri i j - npair_of i'"
  have b: "npair_of i' \<le> tri i j" "tri i j < npair_of (Suc i')"
    using tri_i_bounds [of "tri i j"] unfolding i'_def by simp_all
  then have "j' \<le> i'" "tri i' j' = tri i j"
    unfolding j'_def by (simp_all add: npair_Suc tri_npair)
  then have e: "i' = i \<and> j' = j"
    using tri_inj [of i' j' i j] assms by simp
  then show "tri_i (tri i j) = i" unfolding i'_def by simp
  from e show "tri_j (tri i j) = j" unfolding tri_j_def j'_def i'_def by (simp add: tri_npair)
qed

lemma sum_square_sym2:
  "(\<Sum>x<n. \<Sum>y<n. H x y) = (\<Sum>i<n. \<Sum>j<Suc i. sym2 H i j)" for H :: "nat \<Rightarrow> nat \<Rightarrow> real"
proof (induction n)
  case 0
  show ?case by simp
next
  case (Suc n)
  have row: "(\<Sum>j<Suc i. sym2 H i j) = (\<Sum>j<i. H i j + H j i) + H i i" for i
    by (simp add: sym2_def)
  have "(\<Sum>x<Suc n. \<Sum>y<Suc n. H x y) =
      (\<Sum>x<n. \<Sum>y<n. H x y) + (\<Sum>x<n. H x n) + (\<Sum>y<n. H n y) + H n n"
    by (simp add: sum.distrib)
  also have "\<dots> = (\<Sum>i<n. \<Sum>j<Suc i. sym2 H i j) + ((\<Sum>j<n. H n j + H j n) + H n n)"
    unfolding Suc by (simp add: sum.distrib)
  also have "\<dots> = (\<Sum>i<Suc n. \<Sum>j<Suc i. sym2 H i j)"
    unfolding row [of n, symmetric] by simp
  finally show ?case .
qed

lemma sum_npair:
  "(\<Sum>Q<npair_of n. f Q) = (\<Sum>i<n. \<Sum>j<Suc i. f (tri i j))" for f :: "nat \<Rightarrow> real"
proof (induction n)
  case 0
  show ?case by simp
next
  case (Suc n)
  have "(\<Sum>Q<npair_of (Suc n). f Q) = (\<Sum>Q<npair_of n + Suc n. f Q)"
    by (simp add: npair_Suc)
  also have "\<dots> = (\<Sum>Q<npair_of n. f Q) + (\<Sum>j<Suc n. f (npair_of n + j))"
    by (rule sum_split_add)
  finally show ?case
    unfolding Suc by (simp add: tri_npair)
qed

lemma sum_below_tri:
  "(\<Sum>R<tri i j. f R) = (\<Sum>k<i. \<Sum>l<Suc k. f (tri k l)) + (\<Sum>l<j. f (tri i l))"
  for f :: "nat \<Rightarrow> real"
  unfolding tri_npair sum_split_add sum_npair ..

lemma sum_pairs_sym2:
  "(\<Sum>i<n. \<Sum>j<Suc i. \<Sum>k<n. \<Sum>l<Suc k. P i j k l) =
   (\<Sum>i<n. \<Sum>j<Suc i.
      (\<Sum>k<i. \<Sum>l<Suc k. P i j k l + P k l i j) + (\<Sum>l<j. P i j i l + P i l i j) + P i j i j)"
  for P :: "nat \<Rightarrow> nat \<Rightarrow> nat \<Rightarrow> nat \<Rightarrow> real"
proof -
  define PL where "PL = (\<lambda>Q R. P (tri_i Q) (tri_j Q) (tri_i R) (tri_j R))"
  have PL: "PL (tri i j) (tri k l) = P i j k l" if "j \<le> i" "l \<le> k" for i j k l
    unfolding PL_def using that by (simp add: tri_i_tri)
  have "(\<Sum>i<n. \<Sum>j<Suc i. \<Sum>k<n. \<Sum>l<Suc k. P i j k l) =
      (\<Sum>i<n. \<Sum>j<Suc i. \<Sum>k<n. \<Sum>l<Suc k. PL (tri i j) (tri k l))"
    by (intro sum.cong refl) (simp add: PL)
  also have "\<dots> = (\<Sum>Q<npair_of n. \<Sum>R<npair_of n. PL Q R)"
    unfolding sum_npair ..
  also have "\<dots> = (\<Sum>Q<npair_of n. \<Sum>R<Suc Q. sym2 PL Q R)"
    by (rule sum_square_sym2)
  also have "\<dots> = (\<Sum>Q<npair_of n. (\<Sum>R<Q. PL Q R + PL R Q) + PL Q Q)"
    by (simp add: sym2_def)
  also have "\<dots> = (\<Sum>i<n. \<Sum>j<Suc i.
      (\<Sum>k<i. \<Sum>l<Suc k. PL (tri i j) (tri k l) + PL (tri k l) (tri i j)) +
      (\<Sum>l<j. PL (tri i j) (tri i l) + PL (tri i l) (tri i j)) + PL (tri i j) (tri i j))"
    unfolding sum_npair sum_below_tri ..
  also have "\<dots> = (\<Sum>i<n. \<Sum>j<Suc i.
      (\<Sum>k<i. \<Sum>l<Suc k. P i j k l + P k l i j) + (\<Sum>l<j. P i j i l + P i l i j) + P i j i j)"
    by (intro sum.cong refl arg_cong2 [where f = "(+)"]) (simp_all add: PL)
  finally show ?thesis .
qed

section \<open>Independence of the schedule, and of the prior contents of the output\<close>

lemma valid_sched_seq: "valid_sched m [[0..<m]]"
  by (simp add: valid_sched_def)

text \<open>
  C4.  For each of the five drivers and any two kernels of the file, every schedule
  (any partition of the loop indices into per-thread private accumulators, each thread
  visiting its indices in any order, the threads merging in any order) leaves in
  \<^verbatim>\<open>vj\<close> and \<^verbatim>\<open>vk\<close> what the single sequential pass over \<open>0, 1, \<dots>\<close> leaves.
\<close>

theorem schedule_independent:
  assumes "fvj \<in> set kernels" and "fvk \<in> set kernels"
    and "valid_sched (npair_of n) sched" and "valid_sched (n * n) sched'"
  shows "CVHFnrs8_incore_drv sched eri dmj vj dmk vk n fvj fvk =
         CVHFnrs8_incore_drv [[0..<npair_of n]] eri dmj vj dmk vk n fvj fvk
       \<and> CVHFnrs4_incore_drv sched eri dmj vj dmk vk n fvj fvk =
         CVHFnrs4_incore_drv [[0..<npair_of n]] eri dmj vj dmk vk n fvj fvk
       \<and> CVHFnrs2ij_incore_drv sched eri dmj vj dmk vk n fvj fvk =
         CVHFnrs2ij_incore_drv [[0..<npair_of n]] eri dmj vj dmk vk n fvj fvk
       \<and> CVHFnrs2kl_incore_drv sched' eri dmj vj dmk vk n fvj fvk =
         CVHFnrs2kl_incore_drv [[0..<n * n]] eri dmj vj dmk vk n fvj fvk
       \<and> CVHFnrs1_incore_drv sched' eri dmj vj dmk vk n fvj fvk =
         CVHFnrs1_incore_drv [[0..<n * n]] eri dmj vj dmk vk n fvj fvk"
proof -
  have j: "accumulating fvj"
    by (rule kernels_accumulating [OF assms(1)])
  have k: "accumulating fvk"
    by (rule kernels_accumulating [OF assms(2)])
  have "CVHFnrs8_incore_drv sched eri dmj vj dmk vk n fvj fvk =
      CVHFnrs8_incore_drv [[0..<npair_of n]] eri dmj vj dmk vk n fvj fvk"
    unfolding nrs8_drv_eq [OF j k assms(3)] nrs8_drv_eq [OF j k valid_sched_seq] ..
  moreover have "CVHFnrs4_incore_drv sched eri dmj vj dmk vk n fvj fvk =
      CVHFnrs4_incore_drv [[0..<npair_of n]] eri dmj vj dmk vk n fvj fvk"
    unfolding nrs4_drv_eq [OF j k assms(3)] nrs4_drv_eq [OF j k valid_sched_seq] ..
  moreover have "CVHFnrs2ij_incore_drv sched eri dmj vj dmk vk n fvj fvk =
      CVHFnrs2ij_incore_drv [[0..<npair_of n]] eri dmj vj dmk vk n fvj fvk"
    unfolding nrs2ij_drv_eq [OF j k assms(3)] nrs2ij_drv_eq [OF j k valid_sched_seq] ..
  moreover have "CVHFnrs2kl_incore_drv sched' eri dmj vj dmk vk n fvj fvk =
      CVHFnrs2kl_incore_drv [[0..<n * n]] eri dmj vj dmk vk n fvj fvk"
    unfolding nrs2kl_drv_eq [OF j k assms(4)] nrs2kl_drv_eq [OF j k valid_sched_seq] ..
  moreover have "CVHFnrs1_incore_drv sched' eri dmj vj dmk vk n fvj fvk =
      CVHFnrs1_incore_drv [[0..<n * n]] eri dmj vj dmk vk n fvj fvk"
    unfolding nrs1_drv_eq [OF j k assms(4)] nrs1_drv_eq [OF j k valid_sched_seq] ..
  ultimately show ?thesis by simp
qed

theorem schedule_independent_witness:
  "CVHFnrs8_jk_s1il \<in> set kernels \<and> CVHFnrs1_kl_s1ij \<in> set kernels
   \<and> valid_sched (npair_of 2) [[2, 0], [], [1]] \<and> valid_sched (2 * 2) [[3], [1, 0, 2]]
   \<and> CVHFnrs8_incore_drv [[2, 0], [], [1]] (\<lambda>p. real p + 1) (\<lambda>p. 2 * real p) (\<lambda>p. 5)
        (\<lambda>p. 3 - real p) (\<lambda>p. 7) 2 CVHFnrs1_kl_s1ij CVHFnrs8_jk_s1il =
      CVHFnrs8_incore_drv [[0..<npair_of 2]] (\<lambda>p. real p + 1) (\<lambda>p. 2 * real p) (\<lambda>p. 5)
        (\<lambda>p. 3 - real p) (\<lambda>p. 7) 2 CVHFnrs1_kl_s1ij CVHFnrs8_jk_s1il
   \<and> CVHFnrs1_incore_drv [[3], [1, 0, 2]] (\<lambda>p. real p + 1) (\<lambda>p. 2 * real p) (\<lambda>p. 5)
        (\<lambda>p. 3 - real p) (\<lambda>p. 7) 2 CVHFnrs1_kl_s1ij CVHFnrs8_jk_s1il =
      CVHFnrs1_incore_drv [[0..<2 * 2]] (\<lambda>p. real p + 1) (\<lambda>p. 2 * real p) (\<lambda>p. 5)
        (\<lambda>p. 3 - real p) (\<lambda>p. 7) 2 CVHFnrs1_kl_s1ij CVHFnrs8_jk_s1il"
proof -
  have a: "CVHFnrs1_kl_s1ij \<in> set kernels" and b: "CVHFnrs8_jk_s1il \<in> set kernels"
    by (simp_all add: kernels_def)
  have c: "valid_sched (npair_of 2) [[2, 0], [], [1]]"
    by code_simp
  have d: "valid_sched (2 * 2) [[3], [1, 0, 2]]"
    by code_simp
  show ?thesis
    using a b c d
      schedule_independent [OF a b c d, of "\<lambda>p. real p + 1" "\<lambda>p. 2 * real p" "\<lambda>p. 5"
        "\<lambda>p. 3 - real p" "\<lambda>p. 7"]
    by simp
qed

lemma region_buffer:
  "buffer n (fst (omp_region n iter sched (memset0 vj (n * n), memset0 vk (n * n)))) =
     map (\<lambda>p. \<Sum>t\<leftarrow>sched. fst (fold iter t (zeros, zeros)) p) [0..<n * n]"
  "buffer n (snd (omp_region n iter sched (memset0 vj (n * n), memset0 vk (n * n)))) =
     map (\<lambda>p. \<Sum>t\<leftarrow>sched. snd (fold iter t (zeros, zeros)) p) [0..<n * n]"
  unfolding omp_region_apply buffer_def by (simp_all add: memset0_def)

text \<open>
  C8.  What a driver leaves in the \<open>n \<times> n\<close> buffers \<^verbatim>\<open>vj\<close> and \<^verbatim>\<open>vk\<close> does not
  depend on what they held before the call: for the same schedule, inputs and kernels
  (any two functions with the kernel signature), two runs that start from any contents
  \<open>vj, vk\<close> and \<open>vj', vk'\<close> end with the same contents.
\<close>

theorem drivers_overwrite_output:
  "buffer n (fst (CVHFnrs8_incore_drv sched eri dmj vj dmk vk n fvj fvk)) =
   buffer n (fst (CVHFnrs8_incore_drv sched eri dmj vj' dmk vk' n fvj fvk))
 \<and> buffer n (snd (CVHFnrs8_incore_drv sched eri dmj vj dmk vk n fvj fvk)) =
   buffer n (snd (CVHFnrs8_incore_drv sched eri dmj vj' dmk vk' n fvj fvk))
 \<and> buffer n (fst (CVHFnrs4_incore_drv sched eri dmj vj dmk vk n fvj fvk)) =
   buffer n (fst (CVHFnrs4_incore_drv sched eri dmj vj' dmk vk' n fvj fvk))
 \<and> buffer n (snd (CVHFnrs4_incore_drv sched eri dmj vj dmk vk n fvj fvk)) =
   buffer n (snd (CVHFnrs4_incore_drv sched eri dmj vj' dmk vk' n fvj fvk))
 \<and> buffer n (fst (CVHFnrs2ij_incore_drv sched eri dmj vj dmk vk n fvj fvk)) =
   buffer n (fst (CVHFnrs2ij_incore_drv sched eri dmj vj' dmk vk' n fvj fvk))
 \<and> buffer n (snd (CVHFnrs2ij_incore_drv sched eri dmj vj dmk vk n fvj fvk)) =
   buffer n (snd (CVHFnrs2ij_incore_drv sched eri dmj vj' dmk vk' n fvj fvk))
 \<and> buffer n (fst (CVHFnrs2kl_incore_drv sched eri dmj vj dmk vk n fvj fvk)) =
   buffer n (fst (CVHFnrs2kl_incore_drv sched eri dmj vj' dmk vk' n fvj fvk))
 \<and> buffer n (snd (CVHFnrs2kl_incore_drv sched eri dmj vj dmk vk n fvj fvk)) =
   buffer n (snd (CVHFnrs2kl_incore_drv sched eri dmj vj' dmk vk' n fvj fvk))
 \<and> buffer n (fst (CVHFnrs1_incore_drv sched eri dmj vj dmk vk n fvj fvk)) =
   buffer n (fst (CVHFnrs1_incore_drv sched eri dmj vj' dmk vk' n fvj fvk))
 \<and> buffer n (snd (CVHFnrs1_incore_drv sched eri dmj vj dmk vk n fvj fvk)) =
   buffer n (snd (CVHFnrs1_incore_drv sched eri dmj vj' dmk vk' n fvj fvk))"
  unfolding CVHFnrs8_incore_drv_def CVHFnrs4_incore_drv_def CVHFnrs2ij_incore_drv_def
    CVHFnrs2kl_incore_drv_def CVHFnrs1_incore_drv_def Let_def region_buffer
  by simp

section \<open>\<^verbatim>\<open>CVHFnrs8_ij_s2kl_o0\<close> as a sum of contributions\<close>

lemma s8_ij_s2kl_closed:
  assumes "jc \<le> ic"
  shows "CVHFnrs8_ij_s2kl_o0 eri dm vj nao ic jc = (\<lambda>q. vj q +
    ((\<Sum>k = 0..<ic.
        (\<Sum>l = 0..<k.
           hit q (ic * nao + jc) (eri (tri k l) * (dm (k * nao + l) + dm (l * nao + k))) +
           hit q (k * nao + l) (eri (tri k l) * sym2 (\<lambda>k l. dm (k * nao + l)) ic jc)) +
        (hit q (ic * nao + jc) (eri (tri k k) * dm (k * nao + k)) +
         hit q (k * nao + k) (eri (tri k k) * sym2 (\<lambda>k l. dm (k * nao + l)) ic jc))) +
     (\<Sum>l = 0..<jc.
        hit q (ic * nao + jc) (eri (tri ic l) * (dm (ic * nao + l) + dm (l * nao + ic))) +
        hit q (ic * nao + l) (eri (tri ic l) * sym2 (\<lambda>k l. dm (k * nao + l)) ic jc)) +
     hit q (ic * nao + jc) (eri (tri ic jc) * sym2 (\<lambda>k l. dm (k * nao + l)) ic jc)))"
proof -
  define dm_ij where "dm_ij = sym2 (\<lambda>k l. dm (k * nao + l)) ic jc"
  define B where "B = (\<lambda>e k l q.
      hit q (ic * nao + jc) (e * (dm (k * nao + l) + dm (l * nao + k))) +
      hit q (k * nao + l) (e * dm_ij))"
  define D where "D = (\<lambda>e k q.
      hit q (ic * nao + jc) (e * dm (k * nao + k)) + hit q (k * nao + k) (e * dm_ij))"
  define inner where "inner = (\<lambda>i j (ij, vj).
      (ij + 1, accs [(ic * nao + jc, eri ij * (dm (i * nao + j) + dm (j * nao + i))),
                     (i * nao + j, eri ij * dm_ij)] vj))"
  have inner_step: "inner k l (c, v) = (c + 1, \<lambda>q. v q + B (eri c) k l q)" for k l c v
    by (simp add: inner_def accs_hit B_def fun_eq_iff)
  have inner_loop: "fold (inner k) [0..<m] (c, v) =
      (c + m, \<lambda>q. v q + (\<Sum>l = 0..<m. B (eri (c + l)) k l q))" for k m c v
    using fold_counter_sum [of "inner k" "\<lambda>_. 1" "\<lambda>l c. B (eri c) k l" 0 m c v, OF inner_step]
    by simp
  define outer where "outer = (\<lambda>i (ij, vj).
      let (ij, vj) = fold (inner i) [0..<i] (ij, vj)
      in (ij + 1, accs [(ic * nao + jc, eri ij * dm (i * nao + i)),
                        (i * nao + i, eri ij * dm_ij)] vj))"
  have outer_step: "outer k (c, v) = (c + (k + 1),
      \<lambda>q. v q + ((\<Sum>l = 0..<k. B (eri (c + l)) k l q) + D (eri (c + k)) k q))" for k c v
    by (simp add: outer_def inner_loop accs_hit D_def fun_eq_iff)
  have outer_loop: "fold outer [0..<m] (0, v) =
      (tri m 0, \<lambda>q. v q + (\<Sum>k = 0..<m.
          (\<Sum>l = 0..<k. B (eri (tri k l)) k l q) + D (eri (tri k k)) k q))" for m v
    using fold_counter_sum [of outer "\<lambda>k. k + 1"
        "\<lambda>k c q. (\<Sum>l = 0..<k. B (eri (c + l)) k l q) + D (eri (c + k)) k q" 0 m 0 v,
        OF outer_step]
    by (simp add: tri_eq)
  have sel: "(if ic > jc then Some (dm (ic * nao + jc) + dm (jc * nao + ic))
              else if ic = jc then Some (dm (ic * nao + ic)) else None) = Some dm_ij"
    using assms by (auto simp: dm_ij_def sym2_def)
  have "CVHFnrs8_ij_s2kl_o0 eri dm vj nao ic jc =
      (let (ij, vj) = fold outer [0..<ic] (0, vj);
           (ij, vj) = fold (inner ic) [0..<jc] (ij, vj)
       in acc (ic * nao + jc) (eri ij * dm_ij) vj)"
    unfolding CVHFnrs8_ij_s2kl_o0_def sel
    by (simp add: outer_def inner_def Let_def del: accs.simps)
  also have "\<dots> = (\<lambda>q. vj q +
    ((\<Sum>k = 0..<ic. (\<Sum>l = 0..<k. B (eri (tri k l)) k l q) + D (eri (tri k k)) k q) +
     (\<Sum>l = 0..<jc. B (eri (tri ic l)) ic l q) +
     hit q (ic * nao + jc) (eri (tri ic jc) * dm_ij)))"
    by (simp add: outer_loop inner_loop acc_hit fun_eq_iff tri_def)
  finally show ?thesis
    unfolding B_def D_def dm_ij_def .
qed

lemma hit_sum: "hit q p (sum f A) = (\<Sum>x\<in>A. hit q p (f x))"
  by (simp add: hit_def)

lemma sum_hit_tri:
  assumes "b \<le> a" and "a < n"
  shows "(\<Sum>i<n. \<Sum>j<Suc i. hit (a * n + b) (i * n + j) (X i j)) = X a b"
proof -
  have "(\<Sum>j<Suc i. hit (a * n + b) (i * n + j) (X i j)) = (if i = a then X a b else 0)"
    if "i < n" for i
  proof -
    have "hit (a * n + b) (i * n + j) (X i j) = (if j = b then (if i = a then X a b else 0) else 0)"
      if "j < Suc i" for j
      using that \<open>i < n\<close> assms cell_eq_iff [of b n j a i] by (auto simp: hit_def)
    then have "(\<Sum>j<Suc i. hit (a * n + b) (i * n + j) (X i j)) =
        (\<Sum>j<Suc i. if j = b then (if i = a then X a b else 0) else 0)"
      by (intro sum.cong refl) simp
    also have "\<dots> = (if i = a then X a b else 0)"
      using assms by (simp add: sum.delta' less_Suc_eq_le)
    finally show ?thesis .
  qed
  then have "(\<Sum>i<n. \<Sum>j<Suc i. hit (a * n + b) (i * n + j) (X i j)) =
      (\<Sum>i<n. if i = a then X a b else 0)"
    by (intro sum.cong refl) simp
  also have "\<dots> = X a b" using assms by simp
  finally show ?thesis .
qed

lemma tri_less_row:
  assumes "l \<le> k" and "k < i"
  shows "tri k l < tri i j"
proof -
  have "tri k l < npair_of (Suc k)" using assms(1) by (simp add: tri_npair npair_Suc)
  also have "\<dots> \<le> npair_of i" using assms(2) by (intro npair_mono) simp
  also have "\<dots> \<le> tri i j" by (simp add: tri_npair)
  finally show ?thesis .
qed

lemma s8_block:
  assumes "s8_layout n T eri" and "i < n" and "j \<le> i" and "l \<le> k"
    and "k < i \<or> k = i \<and> l \<le> j"
  shows "ptr_add eri (tri i j * (tri i j + 1) div 2) (tri k l) = T i j k l"
proof -
  have "tri k l \<le> tri i j"
    using assms(5) tri_less_row [OF assms(4), of i j] by (auto simp: tri_def)
  moreover have "k \<le> i" using assms(5) by auto
  ultimately have "eri (tri (tri i j) (tri k l)) = T i j k l"
    using assms(1-4) unfolding s8_layout_def by simp
  then show ?thesis by (simp add: ptr_add_def tri_def)
qed

lemma s8_ij_s2kl_call:
  assumes sym: "s8_symmetric n T" and lay: "s8_layout n T eri" and i: "i < n" and j: "j \<le> i"
  shows "CVHFnrs8_ij_s2kl (ptr_add eri (tri i j * (tri i j + 1) div 2)) dm zeros n i j q =
    (\<Sum>k<i. \<Sum>l<Suc k. jpair n T dm q i j k l + jpair n T dm q k l i j) +
    (\<Sum>l<j. jpair n T dm q i j i l + jpair n T dm q i l i j) + jpair n T dm q i j i j"
proof -
  define E where "E = ptr_add eri (tri i j * (tri i j + 1) div 2)"
  have E: "E (tri k l) = T i j k l" if "l \<le> k" "k < i \<or> k = i \<and> l \<le> j" for k l
    unfolding E_def using lay i j that by (rule s8_block)
  have T: "T k l i j = T i j k l" if "k < n" "l < n" for k l
    using sym i j that unfolding s8_symmetric_def by simp
  have off: "hit q (i * n + j) (E (tri k l) * (dm (k * n + l) + dm (l * n + k))) +
      hit q (k * n + l) (E (tri k l) * sym2 (\<lambda>k l. dm (k * n + l)) i j) =
      jpair n T dm q i j k l + jpair n T dm q k l i j"
    if "l < k" "k < i \<or> k = i \<and> l \<le> j" for k l
  proof -
    have "k < n" "l < n" using that i by auto
    then show ?thesis
      using that E [of l k] T [of k l] by (simp add: jpair_def sym2_def)
  qed
  have diag: "hit q (i * n + j) (E (tri k k) * dm (k * n + k)) +
      hit q (k * n + k) (E (tri k k) * sym2 (\<lambda>k l. dm (k * n + l)) i j) =
      jpair n T dm q i j k k + jpair n T dm q k k i j"
    if "k < i" for k
  proof -
    have "k < n" using that i by simp
    then show ?thesis
      using that E [of k k] T [of k k] by (simp add: jpair_def sym2_def)
  qed
  have row: "(\<Sum>l<k.
        hit q (i * n + j) (E (tri k l) * (dm (k * n + l) + dm (l * n + k))) +
        hit q (k * n + l) (E (tri k l) * sym2 (\<lambda>k l. dm (k * n + l)) i j)) +
      (hit q (i * n + j) (E (tri k k) * dm (k * n + k)) +
       hit q (k * n + k) (E (tri k k) * sym2 (\<lambda>k l. dm (k * n + l)) i j)) =
      (\<Sum>l<Suc k. jpair n T dm q i j k l + jpair n T dm q k l i j)"
    if "k < i" for k
  proof -
    have "(\<Sum>l<k.
        hit q (i * n + j) (E (tri k l) * (dm (k * n + l) + dm (l * n + k))) +
        hit q (k * n + l) (E (tri k l) * sym2 (\<lambda>k l. dm (k * n + l)) i j)) =
        (\<Sum>l<k. jpair n T dm q i j k l + jpair n T dm q k l i j)"
      using that by (intro sum.cong refl off) simp_all
    then show ?thesis
      unfolding diag [OF that] by simp
  qed
  have last: "(\<Sum>l = 0..<j.
        hit q (i * n + j) (E (tri i l) * (dm (i * n + l) + dm (l * n + i))) +
        hit q (i * n + l) (E (tri i l) * sym2 (\<lambda>k l. dm (k * n + l)) i j)) =
      (\<Sum>l<j. jpair n T dm q i j i l + jpair n T dm q i l i j)"
    unfolding atLeast0LessThan using j by (intro sum.cong refl off) simp_all
  have fin: "hit q (i * n + j) (E (tri i j) * sym2 (\<lambda>k l. dm (k * n + l)) i j) =
      jpair n T dm q i j i j"
    using j E [of j i] by (simp add: jpair_def)
  have "(\<Sum>k = 0..<i.
        (\<Sum>l = 0..<k.
           hit q (i * n + j) (E (tri k l) * (dm (k * n + l) + dm (l * n + k))) +
           hit q (k * n + l) (E (tri k l) * sym2 (\<lambda>k l. dm (k * n + l)) i j)) +
        (hit q (i * n + j) (E (tri k k) * dm (k * n + k)) +
         hit q (k * n + k) (E (tri k k) * sym2 (\<lambda>k l. dm (k * n + l)) i j))) =
      (\<Sum>k<i. \<Sum>l<Suc k. jpair n T dm q i j k l + jpair n T dm q k l i j)"
    unfolding atLeast0LessThan by (rule sum.cong [OF refl row]) simp
  then show ?thesis
    unfolding CVHFnrs8_ij_s2kl_def s8_ij_s2kl_closed [OF j] E_def [symmetric] last fin
    by (simp add: zeros_def)
qed

lemma jpair_total:
  assumes sym: "s8_symmetric n T" and a: "a < n" and b: "b \<le> a"
  shows "(\<Sum>i<n. \<Sum>j<Suc i. \<Sum>k<n. \<Sum>l<Suc k. jpair n T dm (a * n + b) i j k l) =
    einsum_J n T dm a b"
proof -
  have "(\<Sum>i<n. \<Sum>j<Suc i. \<Sum>k<n. \<Sum>l<Suc k. jpair n T dm (a * n + b) i j k l) =
      (\<Sum>i<n. \<Sum>j<Suc i. hit (a * n + b) (i * n + j)
          (\<Sum>k<n. \<Sum>l<Suc k. T i j k l * sym2 (\<lambda>k l. dm (k * n + l)) k l))"
    unfolding jpair_def hit_sum ..
  also have "\<dots> = (\<Sum>k<n. \<Sum>l<Suc k. T a b k l * sym2 (\<lambda>k l. dm (k * n + l)) k l)"
    using b a by (rule sum_hit_tri)
  also have "\<dots> = (\<Sum>k<n. \<Sum>l<Suc k. sym2 (\<lambda>k l. T a b k l * dm (k * n + l)) k l)"
  proof (intro sum.cong refl)
    fix k l
    assume kl: "k \<in> {..<n}" "l \<in> {..<Suc k}"
    then have "l < k \<longrightarrow> T a b k l = T a b l k" and "\<not> l < k \<longrightarrow> l = k"
      using sym a b unfolding s8_symmetric_def by auto
    then show "T a b k l * sym2 (\<lambda>k l. dm (k * n + l)) k l =
        sym2 (\<lambda>k l. T a b k l * dm (k * n + l)) k l"
      by (cases "l < k") (simp_all add: sym2_def algebra_simps)
  qed
  also have "\<dots> = (\<Sum>k<n. \<Sum>l<n. T a b k l * dm (k * n + l))"
    by (rule sum_square_sym2 [symmetric])
  finally show ?thesis
    unfolding einsum_J_def .
qed

lemma tri_offset: "tri i j - i * (i + 1) div 2 = j" "tri i j * (tri i j + 1) div 2 = tri (tri i j) 0"
  by (simp_all add: tri_def)

section \<open>The calls of \<^verbatim>\<open>CVHFnrs8_jk_s1il\<close> add up to the dense contraction\<close>

lemma s8_orbit:
  assumes "s8_symmetric n T" and "i < n" and "j < n" and "k < n" and "l < n"
  shows "T j i k l = T i j k l" and "T i j l k = T i j k l" and "T j i l k = T i j k l"
    and "T k l i j = T i j k l" and "T l k i j = T i j k l" and "T k l j i = T i j k l"
    and "T l k j i = T i j k l"
proof -
  have s1: "T a b c d = T b a c d" and s2: "T a b c d = T a b d c" and s3: "T a b c d = T c d a b"
    if "a < n" "b < n" "c < n" "d < n" for a b c d
    using assms(1) that unfolding s8_symmetric_def by simp_all
  show a: "T j i k l = T i j k l" using s1 [of i j k l] assms by simp
  show b: "T i j l k = T i j k l" using s2 [of i j k l] assms by simp
  show c: "T j i l k = T i j k l" using s1 [of i j l k] b assms by simp
  show d: "T k l i j = T i j k l" using s3 [of i j k l] assms by simp
  show "T l k i j = T i j k l" using s1 [of k l i j] d assms by simp
  show e: "T k l j i = T i j k l" using s2 [of k l i j] d assms by simp
  show "T l k j i = T i j k l" using s1 [of k l j i] e assms by simp
qed

lemma sym2_sum:
  "sym2 (\<lambda>x y. \<Sum>k\<in>A. f x y k) i j = (\<Sum>k\<in>A. sym2 (\<lambda>x y. f x y k) i j)"
  by (simp add: sym2_def sum.distrib)

lemma sum_quad_kquad:
  "(\<Sum>x<n. \<Sum>y<n. \<Sum>z<n. \<Sum>w<n. kten n T dm q x y z w) =
   (\<Sum>i<n. \<Sum>j<Suc i. \<Sum>k<n. \<Sum>l<Suc k. kquad n T dm q i j k l)"
proof -
  have "(\<Sum>x<n. \<Sum>y<n. \<Sum>z<n. \<Sum>w<n. kten n T dm q x y z w) =
      (\<Sum>x<n. \<Sum>y<n. \<Sum>k<n. \<Sum>l<Suc k. sym2 (\<lambda>z w. kten n T dm q x y z w) k l)"
    by (intro sum.cong refl sum_square_sym2)
  also have "\<dots> = (\<Sum>i<n. \<Sum>j<Suc i.
      sym2 (\<lambda>x y. \<Sum>k<n. \<Sum>l<Suc k. sym2 (\<lambda>z w. kten n T dm q x y z w) k l) i j)"
    by (rule sum_square_sym2)
  also have "\<dots> = (\<Sum>i<n. \<Sum>j<Suc i. \<Sum>k<n. \<Sum>l<Suc k. kquad n T dm q i j k l)"
    unfolding sym2_sum kquad_def ..
  finally show ?thesis .
qed

lemma kten_total:
  assumes "a < n" and "d < n"
  shows "(\<Sum>x<n. \<Sum>y<n. \<Sum>z<n. \<Sum>w<n. kten n T dm (a * n + d) x y z w) = einsum_K n T dm a d"
proof -
  have w: "(\<Sum>w<n. kten n T dm (a * n + d) x y z w) =
      (if x = a then T a y z d * dm (y * n + z) else 0)" for x y z
  proof -
    have "kten n T dm (a * n + d) x y z w =
        (if w = d then (if x = a then T a y z d * dm (y * n + z) else 0) else 0)" if "w < n" for w
      using that assms(2) cell_eq_iff [of d n w a x]
      by (auto simp: kten_def kcon_def hit_def)
    then have "(\<Sum>w<n. kten n T dm (a * n + d) x y z w) =
        (\<Sum>w<n. if w = d then (if x = a then T a y z d * dm (y * n + z) else 0) else 0)"
      by (intro sum.cong refl) simp
    also have "\<dots> = (if x = a then T a y z d * dm (y * n + z) else 0)"
      using assms(2) by (simp add: sum.delta')
    finally show ?thesis .
  qed
  have "(\<Sum>x<n. \<Sum>y<n. \<Sum>z<n. \<Sum>w<n. kten n T dm (a * n + d) x y z w) =
      (\<Sum>x<n. if x = a then (\<Sum>y<n. \<Sum>z<n. T a y z d * dm (y * n + z)) else 0)"
    unfolding w by (intro sum.cong refl) simp
  also have "\<dots> = (\<Sum>y<n. \<Sum>z<n. T a y z d * dm (y * n + z))"
    using assms(1) by simp
  finally show ?thesis
    unfolding einsum_K_def .
qed

lemma s8_jk_s1il_call:
  assumes sym: "s8_symmetric n T" and lay: "s8_layout n T eri" and i: "i < n" and j: "j \<le> i"
  shows "CVHFnrs8_jk_s1il (ptr_add eri (tri i j * (tri i j + 1) div 2)) dm zeros n i j q =
    (\<Sum>k<i. \<Sum>l<Suc k. kquad n T dm q i j k l + kquad n T dm q k l i j) +
    (\<Sum>l<j. kquad n T dm q i j i l + kquad n T dm q i l i j) + kquad n T dm q i j i j"
proof -
  define E where "E = ptr_add eri (tri i j * (tri i j + 1) div 2)"
  have E: "E (tri k l) = T i j k l" if "l \<le> k" "k < i \<or> k = i \<and> l \<le> j" for k l
    unfolding E_def using lay i j that by (rule s8_block)
  have jn: "j < n" using i j by simp
  note orb = s8_orbit [OF sym i jn]
  show ?thesis
  proof (cases "j < i")
    case True
    have off: "kcon n dm (E (tri k l)) q j i k l +
        kcon n dm (E (tri k l)) q i j k l +
        kcon n dm (E (tri k l)) q j i l k +
        kcon n dm (E (tri k l)) q i j l k +
        kcon n dm (E (tri k l)) q l k i j +
        kcon n dm (E (tri k l)) q k l i j +
        kcon n dm (E (tri k l)) q l k j i +
        kcon n dm (E (tri k l)) q k l j i =
        kquad n T dm q i j k l + kquad n T dm q k l i j"
      if "l < k" "k < i \<or> k = i \<and> l \<le> j" for k l
    proof -
      have "k < n" "l < n" using that i by auto
      then show ?thesis
        using that True E [of l k] orb [of k l]
        by (simp add: kquad_def kten_def sym2_def)
    qed
    have diag: "kcon n dm (E (tri k k)) q j i k k +
        kcon n dm (E (tri k k)) q i j k k +
        kcon n dm (E (tri k k)) q k k i j +
        kcon n dm (E (tri k k)) q k k j i =
        kquad n T dm q i j k k + kquad n T dm q k k i j"
      if "k < i" for k
    proof -
      have "k < n" using that i by auto
      then show ?thesis
        using that True E [of k k] orb [of k k]
        by (simp add: kquad_def kten_def sym2_def)
    qed
    have row: "(\<Sum>l<k.
        kcon n dm (E (tri k l)) q j i k l +
        kcon n dm (E (tri k l)) q i j k l +
        kcon n dm (E (tri k l)) q j i l k +
        kcon n dm (E (tri k l)) q i j l k +
        kcon n dm (E (tri k l)) q l k i j +
        kcon n dm (E (tri k l)) q k l i j +
        kcon n dm (E (tri k l)) q l k j i +
        kcon n dm (E (tri k l)) q k l j i) +
       (kcon n dm (E (tri k k)) q j i k k +
        kcon n dm (E (tri k k)) q i j k k +
        kcon n dm (E (tri k k)) q k k i j +
        kcon n dm (E (tri k k)) q k k j i) =
        (\<Sum>l<Suc k. kquad n T dm q i j k l + kquad n T dm q k l i j)"
      if "k < i" for k
    proof -
      have "(\<Sum>l<k.
        kcon n dm (E (tri k l)) q j i k l +
        kcon n dm (E (tri k l)) q i j k l +
        kcon n dm (E (tri k l)) q j i l k +
        kcon n dm (E (tri k l)) q i j l k +
        kcon n dm (E (tri k l)) q l k i j +
        kcon n dm (E (tri k l)) q k l i j +
        kcon n dm (E (tri k l)) q l k j i +
        kcon n dm (E (tri k l)) q k l j i) =
          (\<Sum>l<k. kquad n T dm q i j k l + kquad n T dm q k l i j)"
        using that by (intro sum.cong refl off) simp_all
      then show ?thesis
        unfolding diag [OF that] by simp
    qed
    have last: "(\<Sum>l = 0..<j.
        kcon n dm (E (tri i l)) q j i i l +
        kcon n dm (E (tri i l)) q i j i l +
        kcon n dm (E (tri i l)) q j i l i +
        kcon n dm (E (tri i l)) q i j l i +
        kcon n dm (E (tri i l)) q l i i j +
        kcon n dm (E (tri i l)) q i l i j +
        kcon n dm (E (tri i l)) q l i j i +
        kcon n dm (E (tri i l)) q i l j i) =
        (\<Sum>l<j. kquad n T dm q i j i l + kquad n T dm q i l i j)"
      unfolding atLeast0LessThan using True by (intro sum.cong refl off) simp_all
    have fin: "kcon n dm (E (tri i j)) q j i i j +
        kcon n dm (E (tri i j)) q i j i j +
        kcon n dm (E (tri i j)) q j i j i +
        kcon n dm (E (tri i j)) q i j j i =
        kquad n T dm q i j i j"
      using True E [of j i] orb [of i j] i jn
      by (simp add: kquad_def kten_def sym2_def)
    have big: "(\<Sum>k = 0..<i.
       (\<Sum>l = 0..<k.
        kcon n dm (E (tri k l)) q j i k l +
        kcon n dm (E (tri k l)) q i j k l +
        kcon n dm (E (tri k l)) q j i l k +
        kcon n dm (E (tri k l)) q i j l k +
        kcon n dm (E (tri k l)) q l k i j +
        kcon n dm (E (tri k l)) q k l i j +
        kcon n dm (E (tri k l)) q l k j i +
        kcon n dm (E (tri k l)) q k l j i) +
       (kcon n dm (E (tri k k)) q j i k k +
        kcon n dm (E (tri k k)) q i j k k +
        kcon n dm (E (tri k k)) q k k i j +
        kcon n dm (E (tri k k)) q k k j i)) =
        (\<Sum>k<i. \<Sum>l<Suc k. kquad n T dm q i j k l + kquad n T dm q k l i j)"
      unfolding atLeast0LessThan by (rule sum.cong [OF refl row]) simp
    show ?thesis
      unfolding CVHFnrs8_jk_s1il_def s8_jk_s1il_gt [OF True] E_def [symmetric] big last fin
      by (simp add: zeros_def)
  next
    case False
    then have ji: "j = i" using j by simp
    have off: "kcon n dm (E (tri k l)) q i i k l +
        kcon n dm (E (tri k l)) q i i l k +
        kcon n dm (E (tri k l)) q l k i i +
        kcon n dm (E (tri k l)) q k l i i =
        kquad n T dm q i i k l + kquad n T dm q k l i i"
      if "l < k" "k < i" for k l
    proof -
      have "k < n" "l < n" using that i by auto
      then show ?thesis
        using that E [of l k] orb [of k l] unfolding ji
        by (simp add: kquad_def kten_def sym2_def)
    qed
    have diag: "kcon n dm (E (tri k k)) q i i k k +
        kcon n dm (E (tri k k)) q k k i i =
        kquad n T dm q i i k k + kquad n T dm q k k i i"
      if "k < i" for k
    proof -
      have "k < n" using that i by auto
      then show ?thesis
        using that E [of k k] orb [of k k] unfolding ji
        by (simp add: kquad_def kten_def sym2_def)
    qed
    have lastt: "kcon n dm (E (tri i l)) q i i i l +
        kcon n dm (E (tri i l)) q i i l i +
        kcon n dm (E (tri i l)) q l i i i +
        kcon n dm (E (tri i l)) q i l i i =
        kquad n T dm q i i i l + kquad n T dm q i l i i"
      if "l < i" for l
    proof -
      have "l < n" using that i by auto
      then show ?thesis
        using that E [of l i] orb [of i l] i unfolding ji
        by (simp add: kquad_def kten_def sym2_def)
    qed
    have row: "(\<Sum>l<k.
        kcon n dm (E (tri k l)) q i i k l +
        kcon n dm (E (tri k l)) q i i l k +
        kcon n dm (E (tri k l)) q l k i i +
        kcon n dm (E (tri k l)) q k l i i) +
       (kcon n dm (E (tri k k)) q i i k k +
        kcon n dm (E (tri k k)) q k k i i) =
        (\<Sum>l<Suc k. kquad n T dm q i i k l + kquad n T dm q k l i i)"
      if "k < i" for k
    proof -
      have "(\<Sum>l<k.
        kcon n dm (E (tri k l)) q i i k l +
        kcon n dm (E (tri k l)) q i i l k +
        kcon n dm (E (tri k l)) q l k i i +
        kcon n dm (E (tri k l)) q k l i i) =
          (\<Sum>l<k. kquad n T dm q i i k l + kquad n T dm q k l i i)"
        using that by (intro sum.cong refl off) simp_all
      then show ?thesis
        unfolding diag [OF that] by simp
    qed
    have last: "(\<Sum>l = 0..<i.
        kcon n dm (E (tri i l)) q i i i l +
        kcon n dm (E (tri i l)) q i i l i +
        kcon n dm (E (tri i l)) q l i i i +
        kcon n dm (E (tri i l)) q i l i i) =
        (\<Sum>l<i. kquad n T dm q i i i l + kquad n T dm q i l i i)"
      unfolding atLeast0LessThan by (intro sum.cong refl lastt) simp_all
    have fin: "kcon n dm (E (tri i i)) q i i i i = kquad n T dm q i i i i"
      using E [of i i] unfolding ji by (simp add: kquad_def kten_def sym2_def)
    have big: "(\<Sum>k = 0..<i.
       (\<Sum>l = 0..<k.
        kcon n dm (E (tri k l)) q i i k l +
        kcon n dm (E (tri k l)) q i i l k +
        kcon n dm (E (tri k l)) q l k i i +
        kcon n dm (E (tri k l)) q k l i i) +
       (kcon n dm (E (tri k k)) q i i k k +
        kcon n dm (E (tri k k)) q k k i i)) =
        (\<Sum>k<i. \<Sum>l<Suc k. kquad n T dm q i i k l + kquad n T dm q k l i i)"
      unfolding atLeast0LessThan by (rule sum.cong [OF refl row]) simp
    show ?thesis
      unfolding ji CVHFnrs8_jk_s1il_def s8_jk_s1il_eq E_def [symmetric, unfolded ji] big last fin
      by (simp add: zeros_def)
  qed
qed

lemma s8_vk_sum:
  assumes "n * (n + 1) \<le> 2147483647" and "s8_symmetric n T" and "s8_layout n T eri"
    and "valid_sched (npair_of n) sched" and "p < n * n"
  shows "snd (CVHFnrs8_incore_drv sched eri dmj vj dmk vk n fvj CVHFnrs8_jk_s1il) p =
    (\<Sum>x<n. \<Sum>y<n. \<Sum>z<n. \<Sum>w<n. kten n T dmk p x y z w)"
proof -
  have acc: "accumulating CVHFnrs8_jk_s1il"
    by (rule kernels_accumulating) (simp add: kernels_def)
  have n: "n \<le> 46340" using assms(1) by (rule int_safe_bound)
  have call: "CVHFnrs8_jk_s1il (ptr_add eri (tri a b * (tri a b + 1) div 2)) dmk zeros n
        (tri_unfold_i (tri a b)) (tri a b - tri_unfold_i (tri a b) * (tri_unfold_i (tri a b) + 1) div 2)
        p =
      (\<Sum>k<a. \<Sum>l<Suc k. kquad n T dmk p a b k l + kquad n T dmk p k l a b) +
      (\<Sum>l<b. kquad n T dmk p a b a l + kquad n T dmk p a l a b) +
      kquad n T dmk p a b a b"
    if "a < n" "b < Suc a" for a b
  proof -
    have "b \<le> a" using that(2) by simp
    moreover have "a \<le> 46340" using that(1) n by simp
    ultimately have u: "tri_unfold_i (tri a b) = a" by (rule tri_unfold_i_tri)
    show ?thesis
      unfolding u tri_offset(1) using assms(2,3) that(1) \<open>b \<le> a\<close> by (rule s8_jk_s1il_call)
  qed
  have "snd (CVHFnrs8_incore_drv sched eri dmj vj dmk vk n fvj CVHFnrs8_jk_s1il) p =
      (\<Sum>a<n. \<Sum>b<Suc a.
        CVHFnrs8_jk_s1il (ptr_add eri (tri a b * (tri a b + 1) div 2)) dmk zeros n
          (tri_unfold_i (tri a b)) (tri a b - tri_unfold_i (tri a b) * (tri_unfold_i (tri a b) + 1) div 2)
          p)"
    unfolding nrs8_drv_snd [OF acc assms(4,5)] sum_npair ..
  also have "\<dots> = (\<Sum>a<n. \<Sum>b<Suc a.
      (\<Sum>k<a. \<Sum>l<Suc k. kquad n T dmk p a b k l + kquad n T dmk p k l a b) +
      (\<Sum>l<b. kquad n T dmk p a b a l + kquad n T dmk p a l a b) +
      kquad n T dmk p a b a b)"
    by (intro sum.cong refl call) simp_all
  also have "\<dots> = (\<Sum>a<n. \<Sum>b<Suc a. \<Sum>k<n. \<Sum>l<Suc k. kquad n T dmk p a b k l)"
    by (rule sum_pairs_sym2 [symmetric])
  also have "\<dots> = (\<Sum>x<n. \<Sum>y<n. \<Sum>z<n. \<Sum>w<n. kten n T dmk p x y z w)"
    by (rule sum_quad_kquad [symmetric])
  finally show ?thesis .
qed

section \<open>The triangular exchange kernel\<close>


lemma hit_mult_add: "hit q p (e * (a + b)) = hit q p (e * a) + hit q p (e * b)"
  by (simp add: hit_def algebra_simps)

lemma tri_rows_from:
  assumes "a \<le> k"
  shows "tri a 0 + (\<Sum>k' = a..<k. k' + 1) = tri k 0"
proof -
  have "(\<Sum>k' = 0..<k. k' + 1) = (\<Sum>k' = 0..<a. k' + 1) + (\<Sum>k' = a..<k. k' + 1)"
    using assms by (simp add: sum.atLeastLessThan_concat)
  then show ?thesis
    unfolding tri_eq by simp
qed

lemma s8_jk_s2il_gt:
  assumes "jc < ic"
  shows "CVHFnrs8_jk_s2il_o0 eri dm vk nao ic jc = (\<lambda>q. vk q +
    ((\<Sum>k = 0..<jc.
        (\<Sum>l = 0..<k.
          kcon nao dm (eri (tri k l)) q jc ic k l +
          kcon nao dm (eri (tri k l)) q jc ic l k +
          kcon nao dm (eri (tri k l)) q ic jc k l +
          kcon nao dm (eri (tri k l)) q ic jc l k) +
        (kcon nao dm (eri (tri k k)) q jc ic k k +
          kcon nao dm (eri (tri k k)) q ic jc k k)) +
     (\<Sum>l = 0..<jc.
          kcon nao dm (eri (tri jc l)) q jc ic jc l +
          kcon nao dm (eri (tri jc l)) q jc ic l jc +
          kcon nao dm (eri (tri jc l)) q jc l ic jc +
          kcon nao dm (eri (tri jc l)) q ic jc jc l +
          kcon nao dm (eri (tri jc l)) q ic jc l jc) +
     (kcon nao dm (eri (tri jc jc)) q jc ic jc jc +
          kcon nao dm (eri (tri jc jc)) q jc jc ic jc +
          kcon nao dm (eri (tri jc jc)) q ic jc jc jc) +
     (\<Sum>k = jc + 1..<ic.
        (\<Sum>l = 0..<jc.
          kcon nao dm (eri (tri k l)) q jc ic k l +
          kcon nao dm (eri (tri k l)) q ic jc k l +
          kcon nao dm (eri (tri k l)) q ic jc l k +
          kcon nao dm (eri (tri k l)) q k l ic jc) +
        (kcon nao dm (eri (tri k jc)) q jc ic k jc +
          kcon nao dm (eri (tri k jc)) q jc k ic jc +
          kcon nao dm (eri (tri k jc)) q ic jc k jc +
          kcon nao dm (eri (tri k jc)) q ic jc jc k +
          kcon nao dm (eri (tri k jc)) q k jc ic jc) +
        (\<Sum>l = jc + 1..<k.
          kcon nao dm (eri (tri k l)) q ic jc k l +
          kcon nao dm (eri (tri k l)) q ic jc l k +
          kcon nao dm (eri (tri k l)) q l k ic jc +
          kcon nao dm (eri (tri k l)) q k l ic jc) +
        (kcon nao dm (eri (tri k k)) q jc ic k k +
          kcon nao dm (eri (tri k k)) q ic jc k k +
          kcon nao dm (eri (tri k k)) q k k ic jc)) +
     (\<Sum>l = 0..<jc.
          kcon nao dm (eri (tri ic l)) q jc ic ic l +
          kcon nao dm (eri (tri ic l)) q ic jc ic l +
          kcon nao dm (eri (tri ic l)) q ic jc l ic +
          kcon nao dm (eri (tri ic l)) q ic l jc ic +
          kcon nao dm (eri (tri ic l)) q ic l ic jc) +
     (kcon nao dm (eri (tri ic jc)) q jc ic ic jc +
          kcon nao dm (eri (tri ic jc)) q ic jc ic jc +
          kcon nao dm (eri (tri ic jc)) q ic jc jc ic)))"
proof -
  define A1 where "A1 = (\<lambda>e k l q.
          kcon nao dm (e) q jc ic k l +
          kcon nao dm (e) q jc ic l k +
          kcon nao dm (e) q ic jc k l +
          kcon nao dm (e) q ic jc l k)"
  define D1 where "D1 = (\<lambda>e k q.
          kcon nao dm (e) q jc ic k k +
          kcon nao dm (e) q ic jc k k)"
  define A2 where "A2 = (\<lambda>e l q.
          kcon nao dm (e) q jc ic jc l +
          kcon nao dm (e) q jc ic l jc +
          kcon nao dm (e) q jc l ic jc +
          kcon nao dm (e) q ic jc jc l +
          kcon nao dm (e) q ic jc l jc)"
  define D2 where "D2 = (\<lambda>e q.
          kcon nao dm (e) q jc ic jc jc +
          kcon nao dm (e) q jc jc ic jc +
          kcon nao dm (e) q ic jc jc jc)"
  define A3 where "A3 = (\<lambda>e k l q.
          kcon nao dm (e) q jc ic k l +
          kcon nao dm (e) q ic jc k l +
          kcon nao dm (e) q ic jc l k +
          kcon nao dm (e) q k l ic jc)"
  define M3 where "M3 = (\<lambda>e k q.
          kcon nao dm (e) q jc ic k jc +
          kcon nao dm (e) q jc k ic jc +
          kcon nao dm (e) q ic jc k jc +
          kcon nao dm (e) q ic jc jc k +
          kcon nao dm (e) q k jc ic jc)"
  define B3 where "B3 = (\<lambda>e k l q.
          kcon nao dm (e) q ic jc k l +
          kcon nao dm (e) q ic jc l k +
          kcon nao dm (e) q l k ic jc +
          kcon nao dm (e) q k l ic jc)"
  define D3 where "D3 = (\<lambda>e k q.
          kcon nao dm (e) q jc ic k k +
          kcon nao dm (e) q ic jc k k +
          kcon nao dm (e) q k k ic jc)"
  define A4 where "A4 = (\<lambda>e l q.
          kcon nao dm (e) q jc ic ic l +
          kcon nao dm (e) q ic jc ic l +
          kcon nao dm (e) q ic jc l ic +
          kcon nao dm (e) q ic l jc ic +
          kcon nao dm (e) q ic l ic jc)"
  define D4 where "D4 = (\<lambda>e q.
          kcon nao dm (e) q jc ic ic jc +
          kcon nao dm (e) q ic jc ic jc +
          kcon nao dm (e) q ic jc jc ic)"
  define in1 where "in1 = (\<lambda>e k l vk.
      accs [(jc * nao + l, eri (e + l) * dm (ic * nao + k)),
                 (jc * nao + k, eri (e + l) * dm (ic * nao + l)),
                 (ic * nao + l, eri (e + l) * dm (jc * nao + k)),
                 (ic * nao + k, eri (e + l) * dm (jc * nao + l))] vk)"
  have in1_step: "in1 e k l v = (\<lambda>q. v q + A1 (eri (e + l)) k l q)" for e k l v
    by (simp add: in1_def accs_hit A1_def kcon_def hit_mult_add fun_eq_iff)
  have in1_loop: "fold (in1 e k) [0..<m] v = (\<lambda>q. v q + (\<Sum>l = 0..<m. A1 (eri (e + l)) k l q))"
    for e k m v
    by (rule fold_plain_sum [of "in1 e k" "\<lambda>l. A1 (eri (e + l)) k l", OF in1_step])
  define L1 where "L1 = (\<lambda>k (e, vk).
      let vk = fold (in1 e k) [0..<k] vk;
          vk = accs [(jc * nao + k, eri (e + k) * dm (ic * nao + k)),
                 (ic * nao + k, eri (e + k) * dm (jc * nao + k))] vk
      in (e + (k + 1), vk))"
  have L1_step: "L1 k (e, v) = (e + (k + 1),
      \<lambda>q. v q + ((\<Sum>l = 0..<k. A1 (eri (e + l)) k l q) + D1 (eri (e + k)) k q))" for k e v
    by (simp add: L1_def in1_loop accs_hit D1_def kcon_def hit_mult_add fun_eq_iff)
  have L1_loop: "fold L1 [0..<m] (0, v) =
      (tri m 0, \<lambda>q. v q + (\<Sum>k = 0..<m.
          (\<Sum>l = 0..<k. A1 (eri (tri k l)) k l q) + D1 (eri (tri k k)) k q))" for m v
    using fold_counter_sum [of L1 "\<lambda>k. k + 1"
        "\<lambda>k e q. (\<Sum>l = 0..<k. A1 (eri (e + l)) k l q) + D1 (eri (e + k)) k q" 0 m 0 v,
        OF L1_step]
    by (simp add: tri_eq)
  define in2 where "in2 = (\<lambda>e l vk.
      accs [(jc * nao + l, eri (e + l) * dm (ic * nao + jc)),
                 (jc * nao + jc, eri (e + l) * (dm (ic * nao + l) + dm (l * nao + ic))),
                 (ic * nao + l, eri (e + l) * dm (jc * nao + jc)),
                 (ic * nao + jc, eri (e + l) * dm (jc * nao + l))] vk)"
  have in2_step: "in2 e l v = (\<lambda>q. v q + A2 (eri (e + l)) l q)" for e l v
    by (simp add: in2_def accs_hit A2_def kcon_def hit_mult_add fun_eq_iff)
  have in2_loop: "fold (in2 e) [0..<m] v = (\<lambda>q. v q + (\<Sum>l = 0..<m. A2 (eri (e + l)) l q))"
    for e m v
    by (rule fold_plain_sum [of "in2 e" "\<lambda>l. A2 (eri (e + l)) l", OF in2_step])
  define in3a where "in3a = (\<lambda>e k l vk.
      accs [(jc * nao + l, eri (e + l) * dm (ic * nao + k)),
                 (ic * nao + l, eri (e + l) * dm (jc * nao + k)),
                 (ic * nao + k, eri (e + l) * dm (jc * nao + l)),
                 (k * nao + jc, eri (e + l) * dm (l * nao + ic))] vk)"
  have in3a_step: "in3a e k l v = (\<lambda>q. v q + A3 (eri (e + l)) k l q)" for e k l v
    by (simp add: in3a_def accs_hit A3_def kcon_def hit_mult_add fun_eq_iff)
  have in3a_loop: "fold (in3a e k) [0..<m] v = (\<lambda>q. v q + (\<Sum>l = 0..<m. A3 (eri (e + l)) k l q))"
    for e k m v
    by (rule fold_plain_sum [of "in3a e k" "\<lambda>l. A3 (eri (e + l)) k l", OF in3a_step])
  define in3b where "in3b = (\<lambda>e k l vk.
      accs [(ic * nao + l, eri (e + l) * dm (jc * nao + k)),
                 (ic * nao + k, eri (e + l) * dm (jc * nao + l)),
                 (l * nao + jc, eri (e + l) * dm (k * nao + ic)),
                 (k * nao + jc, eri (e + l) * dm (l * nao + ic))] vk)"
  have in3b_step: "in3b e k l v = (\<lambda>q. v q + B3 (eri (e + l)) k l q)" for e k l v
    by (simp add: in3b_def accs_hit B3_def kcon_def hit_mult_add fun_eq_iff)
  have in3b_loop: "fold (in3b e k) [a..<m] v = (\<lambda>q. v q + (\<Sum>l = a..<m. B3 (eri (e + l)) k l q))"
    for e k a m v
    by (rule fold_plain_sum [of "in3b e k" "\<lambda>l. B3 (eri (e + l)) k l", OF in3b_step])
  define L3 where "L3 = (\<lambda>k (e, vk).
      let vk = fold (in3a e k) [0..<jc] vk;
          vk = accs [(jc * nao + jc, eri (e + jc) * (dm (ic * nao + k) + dm (k * nao + ic))),
                 (ic * nao + jc, eri (e + jc) * dm (jc * nao + k)),
                 (ic * nao + k, eri (e + jc) * dm (jc * nao + jc)),
                 (k * nao + jc, eri (e + jc) * dm (jc * nao + ic))] vk;
          vk = fold (in3b e k) [jc + 1..<k] vk;
          vk = accs [(jc * nao + k, eri (e + k) * dm (ic * nao + k)),
                 (ic * nao + k, eri (e + k) * dm (jc * nao + k)),
                 (k * nao + jc, eri (e + k) * dm (k * nao + ic))] vk
      in (e + (k + 1), vk))"
  have L3_step: "L3 k (e, v) = (e + (k + 1),
      \<lambda>q. v q + ((\<Sum>l = 0..<jc. A3 (eri (e + l)) k l q) + M3 (eri (e + jc)) k q +
        (\<Sum>l = jc + 1..<k. B3 (eri (e + l)) k l q) + D3 (eri (e + k)) k q))" for k e v
    by (simp add: L3_def in3a_loop in3b_loop accs_hit M3_def D3_def kcon_def hit_mult_add
        fun_eq_iff)
  have L3_loop: "fold L3 [jc + 1..<m] (tri (jc + 1) 0, v) =
      (tri (jc + 1) 0 + (\<Sum>k = jc + 1..<m. k + 1), \<lambda>q. v q + (\<Sum>k = jc + 1..<m.
          (\<Sum>l = 0..<jc. A3 (eri (tri k l)) k l q) + M3 (eri (tri k jc)) k q +
          (\<Sum>l = jc + 1..<k. B3 (eri (tri k l)) k l q) + D3 (eri (tri k k)) k q))" for m v
  proof -
    have off: "tri (jc + 1) 0 + (\<Sum>k' = jc + 1..<k. k' + 1) + l = tri k l"
      if "k \<in> {jc + 1..<m}" for k l
      using that tri_rows_from [of "jc + 1" k] by (simp add: tri_def)
    have "(\<Sum>k = jc + 1..<m.
          (\<Sum>l = 0..<jc. A3 (eri (tri (jc + 1) 0 + (\<Sum>k' = jc + 1..<k. k' + 1) + l)) k l q) +
          M3 (eri (tri (jc + 1) 0 + (\<Sum>k' = jc + 1..<k. k' + 1) + jc)) k q +
          (\<Sum>l = jc + 1..<k. B3 (eri (tri (jc + 1) 0 + (\<Sum>k' = jc + 1..<k. k' + 1) + l)) k l q) +
          D3 (eri (tri (jc + 1) 0 + (\<Sum>k' = jc + 1..<k. k' + 1) + k)) k q) =
        (\<Sum>k = jc + 1..<m.
          (\<Sum>l = 0..<jc. A3 (eri (tri k l)) k l q) + M3 (eri (tri k jc)) k q +
          (\<Sum>l = jc + 1..<k. B3 (eri (tri k l)) k l q) + D3 (eri (tri k k)) k q)" for q
      by (rule sum.cong [OF refl]) (simp only: off)
    then show ?thesis
      unfolding fold_counter_sum [of L3 "\<lambda>k. k + 1"
        "\<lambda>k e q. (\<Sum>l = 0..<jc. A3 (eri (e + l)) k l q) + M3 (eri (e + jc)) k q +
          (\<Sum>l = jc + 1..<k. B3 (eri (e + l)) k l q) + D3 (eri (e + k)) k q"
        "jc + 1" m "tri (jc + 1) 0" v, OF L3_step]
      by simp
  qed
  define in4 where "in4 = (\<lambda>e l vk.
      accs [(jc * nao + l, eri (e + l) * dm (ic * nao + ic)),
                 (ic * nao + l, eri (e + l) * dm (jc * nao + ic)),
                 (ic * nao + ic, eri (e + l) * (dm (jc * nao + l) + dm (l * nao + jc))),
                 (ic * nao + jc, eri (e + l) * dm (l * nao + ic))] vk)"
  have in4_step: "in4 e l v = (\<lambda>q. v q + A4 (eri (e + l)) l q)" for e l v
    by (simp add: in4_def accs_hit A4_def kcon_def hit_mult_add fun_eq_iff)
  have in4_loop: "fold (in4 e) [0..<m] v = (\<lambda>q. v q + (\<Sum>l = 0..<m. A4 (eri (e + l)) l q))"
    for e m v
    by (rule fold_plain_sum [of "in4 e" "\<lambda>l. A4 (eri (e + l)) l", OF in4_step])
  have "CVHFnrs8_jk_s2il_o0 eri dm vk nao ic jc =
      (let (e, vk) = fold L1 [0..<jc] (0, vk);
           vk = fold (in2 e) [0..<jc] vk;
           vk = accs [(jc * nao + jc, eri (e + jc) * (dm (ic * nao + jc) + dm (jc * nao + ic))),
                 (ic * nao + jc, eri (e + jc) * dm (jc * nao + jc))] vk;
           e = e + (jc + 1);
           (e, vk) = fold L3 [jc + 1..<ic] (e, vk);
           vk = fold (in4 e) [0..<jc] vk
       in accs [(jc * nao + jc, eri (e + jc) * dm (ic * nao + ic)),
                 (ic * nao + jc, eri (e + jc) * dm (jc * nao + ic)),
                 (ic * nao + ic, eri (e + jc) * dm (jc * nao + jc))] vk)"
    using assms
    by (simp add: CVHFnrs8_jk_s2il_o0_def L1_def in1_def in2_def L3_def in3a_def in3b_def in4_def
        Let_def del: accs.simps)
  also have "\<dots> = (\<lambda>q. vk q +
    ((\<Sum>k = 0..<jc. (\<Sum>l = 0..<k. A1 (eri (tri k l)) k l q) + D1 (eri (tri k k)) k q) +
     (\<Sum>l = 0..<jc. A2 (eri (tri jc l)) l q) + D2 (eri (tri jc jc)) q +
     (\<Sum>k = jc + 1..<ic.
        (\<Sum>l = 0..<jc. A3 (eri (tri k l)) k l q) + M3 (eri (tri k jc)) k q +
        (\<Sum>l = jc + 1..<k. B3 (eri (tri k l)) k l q) + D3 (eri (tri k k)) k q) +
     (\<Sum>l = 0..<jc. A4 (eri (tri ic l)) l q) + D4 (eri (tri ic jc)) q))"
  proof -
    have e1: "tri jc 0 + (jc + 1) = tri (jc + 1) 0"
      by (simp add: tri_npair npair_Suc)
    have e2: "tri (jc + 1) 0 + (\<Sum>k = jc + 1..<ic. k + 1) = tri ic 0"
      using assms by (intro tri_rows_from) simp
    show ?thesis
      unfolding Let_def L1_loop prod.case in2_loop e1 L3_loop e2 in4_loop
      by (simp add: accs_hit D2_def D4_def kcon_def hit_mult_add fun_eq_iff tri_def)
  qed
  finally show ?thesis
    unfolding A1_def D1_def A2_def D2_def A3_def M3_def B3_def D3_def A4_def D4_def .
qed


lemma for_step2_unrolled:
  assumes "\<And>k s. U k s = R (Suc k) (R k s)"
  shows "for_step2 k hi U s =
    (k + 2 * ((hi + 1 - k) div 2), fold R [k..<k + 2 * ((hi + 1 - k) div 2)] s)"
proof (induction "hi - k" arbitrary: k s rule: less_induct)
  case less
  show ?case
  proof (cases "k < hi")
    case True
    have m: "(hi + 1 - k) div 2 = Suc ((hi + 1 - (k + 2)) div 2)"
    proof -
      have "hi + 1 - k = hi + 1 - (k + 2) + 2" using True by simp
      then show ?thesis by (metis div_add_self2 zero_neq_numeral Suc_eq_plus1)
    qed
    have "for_step2 k hi U s = for_step2 (k + 2) hi U (U k s)"
      using True by (subst for_step2.simps) simp
    also have "\<dots> = (k + 2 + 2 * ((hi + 1 - (k + 2)) div 2),
        fold R [k + 2..<k + 2 + 2 * ((hi + 1 - (k + 2)) div 2)] (U k s))"
      using True by (intro less) simp
    also have "\<dots> = (k + 2 * ((hi + 1 - k) div 2),
        fold R [k..<k + 2 * ((hi + 1 - k) div 2)] s)"
      unfolding m assms by (simp add: upt_conv_Cons)
    finally show ?thesis .
  next
    case False
    then have "(hi + 1 - k) div 2 = 0" by simp
    then show ?thesis
      using False by (subst for_step2.simps) simp
  qed
qed

lemma fold_upt_join:
  assumes "a \<le> b"
  shows "fold f [a..<b] (fold f [0..<a] s) = fold f [0..<b] s"
proof -
  have "[0..<b] = [0..<a] @ [a..<b]"
    using assms by (metis le_add_diff_inverse upt_add_eq_append zero_le)
  then show ?thesis by simp
qed

lemma s8_jk_s2il_eq:
  "CVHFnrs8_jk_s2il_o0 eri dm vk nao ic ic = (\<lambda>q. vk q +
    ((\<Sum>k = 0..<ic.
        (\<Sum>l = 0..<k.
           kcon nao dm (eri (tri k l)) q ic ic k l + kcon nao dm (eri (tri k l)) q ic ic l k) +
        kcon nao dm (eri (tri k k)) q ic ic k k) +
     (\<Sum>l = 0..<ic.
        kcon nao dm (eri (tri ic l)) q ic ic ic l + kcon nao dm (eri (tri ic l)) q ic ic l ic +
        kcon nao dm (eri (tri ic l)) q ic l ic ic) +
     kcon nao dm (eri (tri ic ic)) q ic ic ic ic))"
proof -
  define RA where "RA = (\<lambda>e k l q. kcon nao dm e q ic ic k l + kcon nao dm e q ic ic l k)"
  define RD where "RD = (\<lambda>e k q. kcon nao dm e q ic ic k k)"
  define A5 where "A5 = (\<lambda>e l q.
      kcon nao dm e q ic ic ic l + kcon nao dm e q ic ic l ic + kcon nao dm e q ic l ic ic)"
  define rin where "rin = (\<lambda>e k l vk.
      accs [(ic * nao + l, eri (e + l) * dm (ic * nao + k)),
            (ic * nao + k, eri (e + l) * dm (ic * nao + l))] vk)"
  have rin_step: "rin e k l v = (\<lambda>q. v q + RA (eri (e + l)) k l q)" for e k l v
    by (simp add: rin_def accs_hit RA_def kcon_def fun_eq_iff)
  have rin_loop: "fold (rin e k) [0..<m] v = (\<lambda>q. v q + (\<Sum>l = 0..<m. RA (eri (e + l)) k l q))"
    for e k m v
    by (rule fold_plain_sum [of "rin e k" "\<lambda>l. RA (eri (e + l)) k l", OF rin_step])
  define R where "R = (\<lambda>k (e, vk).
      let vk = fold (rin e k) [0..<k] vk;
          vk = acc (ic * nao + k) (eri (e + k) * dm (ic * nao + k)) vk
      in (e + (k + 1), vk))"
  have R_step: "R k (e, v) = (e + (k + 1),
      \<lambda>q. v q + ((\<Sum>l = 0..<k. RA (eri (e + l)) k l q) + RD (eri (e + k)) k q))" for k e v
    by (simp add: R_def rin_loop acc_hit RD_def kcon_def fun_eq_iff)
  have R_loop: "fold R [0..<m] (0, v) =
      (tri m 0, \<lambda>q. v q + (\<Sum>k = 0..<m.
          (\<Sum>l = 0..<k. RA (eri (tri k l)) k l q) + RD (eri (tri k k)) k q))" for m v
    using fold_counter_sum [of R "\<lambda>k. k + 1"
        "\<lambda>k e q. (\<Sum>l = 0..<k. RA (eri (e + l)) k l q) + RD (eri (e + k)) k q" 0 m 0 v,
        OF R_step]
    by (simp add: tri_eq)
  define uin where "uin = (\<lambda>e k l vk.
      accs [(ic * nao + l, eri (e + l) * dm (ic * nao + k)),
            (ic * nao + k, eri (e + l) * dm (ic * nao + l)),
            (ic * nao + l, eri (e + (l + k + 1)) * dm (ic * nao + k + 1)),
            (ic * nao + k + 1, eri (e + (l + k + 1)) * dm (ic * nao + l))] vk)"
  have uin_step: "uin e k l v =
      (\<lambda>q. v q + (RA (eri (e + l)) k l q + RA (eri (e + (k + 1) + l)) (Suc k) l q))" for e k l v
    by (simp add: uin_def accs_hit RA_def kcon_def fun_eq_iff add.commute add.left_commute)
  have uin_loop: "fold (uin e k) [0..<m] v =
      (\<lambda>q. v q + (\<Sum>l = 0..<m. RA (eri (e + l)) k l q + RA (eri (e + (k + 1) + l)) (Suc k) l q))"
    for e k m v
    by (rule fold_plain_sum [of "uin e k"
          "\<lambda>l q. RA (eri (e + l)) k l q + RA (eri (e + (k + 1) + l)) (Suc k) l q", OF uin_step])
  define U where "U = (\<lambda>k (e, vk).
      let vk = fold (uin e k) [0..<k] vk;
          vk = acc (ic * nao + k) (eri (e + k) * dm (ic * nao + k)) vk;
          e = e + (k + 1);
          vk = accs [(ic * nao + k, eri (e + k) * dm (ic * nao + k + 1)),
                     (ic * nao + k + 1, eri (e + k) * dm (ic * nao + k)),
                     (ic * nao + k + 1, eri (e + (k + 1)) * dm (ic * nao + k + 1))] vk
      in (e + (k + 2), vk))"
  have U_R: "U k s = R (Suc k) (R k s)" for k s
  proof (cases s)
    case (Pair e v)
    have "U k (e, v) = (e + (k + 1) + (k + 2),
        \<lambda>q. v q + ((\<Sum>l = 0..<k. RA (eri (e + l)) k l q) + RD (eri (e + k)) k q) +
          ((\<Sum>l = 0..<Suc k. RA (eri (e + (k + 1) + l)) (Suc k) l q) +
           RD (eri (e + (k + 1) + Suc k)) (Suc k) q))"
      by (simp add: U_def uin_loop acc_hit accs_hit RA_def RD_def kcon_def fun_eq_iff
          sum.distrib add.commute add.left_commute)
    also have "\<dots> = R (Suc k) (R k (e, v))"
      unfolding R_step by (simp add: fun_eq_iff add.assoc)
    finally show ?thesis unfolding Pair .
  qed
  define k2 where "k2 = 2 * ((ic - 1 + 1 - 0) div 2)"
  have k2: "k2 \<le> ic" unfolding k2_def by (cases ic) simp_all
  have U_loop: "for_step2 0 (ic - 1) U (0, vk) = (k2, fold R [0..<k2] (0, vk))"
    using for_step2_unrolled [of U R 0 "ic - 1" "(0, vk)", OF U_R] unfolding k2_def by simp
  define in5 where "in5 = (\<lambda>e l vk.
      accs [(ic * nao + l, eri (e + l) * dm (ic * nao + ic)),
            (ic * nao + ic, eri (e + l) * (dm (ic * nao + l) + dm (l * nao + ic)))] vk)"
  have in5_step: "in5 e l v = (\<lambda>q. v q + A5 (eri (e + l)) l q)" for e l v
    by (simp add: in5_def accs_hit A5_def kcon_def hit_mult_add fun_eq_iff)
  have in5_loop: "fold (in5 e) [0..<m] v = (\<lambda>q. v q + (\<Sum>l = 0..<m. A5 (eri (e + l)) l q))"
    for e m v
    by (rule fold_plain_sum [of "in5 e" "\<lambda>l. A5 (eri (e + l)) l", OF in5_step])
  have "CVHFnrs8_jk_s2il_o0 eri dm vk nao ic ic =
      (let (k, e, vk) = for_step2 0 (ic - 1) U (0, vk);
           (e, vk) = fold R [k..<ic] (e, vk);
           k = max k ic;
           vk = fold (in5 e) [0..<k] vk
       in acc (ic * nao + ic) (eri (e + k) * dm (ic * nao + ic)) vk)"
    by (simp add: CVHFnrs8_jk_s2il_o0_def U_def uin_def R_def rin_def in5_def Let_def
        del: accs.simps)
  also have "\<dots> = (let (e, vk) = fold R [0..<ic] (0, vk);
           vk = fold (in5 e) [0..<ic] vk
       in acc (ic * nao + ic) (eri (e + ic) * dm (ic * nao + ic)) vk)"
    unfolding U_loop using k2 by (simp add: Let_def fold_upt_join max_absorb2)
  also have "\<dots> = (\<lambda>q. vk q +
    ((\<Sum>k = 0..<ic. (\<Sum>l = 0..<k. RA (eri (tri k l)) k l q) + RD (eri (tri k k)) k q) +
     (\<Sum>l = 0..<ic. A5 (eri (tri ic l)) l q) +
     kcon nao dm (eri (tri ic ic)) q ic ic ic ic))"
    unfolding R_loop Let_def prod.case in5_loop
    by (simp add: acc_hit kcon_def fun_eq_iff tri_def)
  finally show ?thesis
    unfolding RA_def RD_def A5_def .
qed


lemma kcon_upper:
  assumes "d \<le> a" and "d < nao" and "w < nao" and "x < w"
  shows "kcon nao dm e (a * nao + d) x y z w = 0"
  using assms cell_eq_iff [of d nao w a x] by (auto simp: kcon_def hit_def)

lemma sum_split3:
  fixes F :: "nat \<Rightarrow> real"
  assumes "j < i"
  shows "(\<Sum>k = 0..<i. F k) = (\<Sum>k = 0..<j. F k) + F j + (\<Sum>k = j + 1..<i. F k)"
proof -
  have "(\<Sum>k = 0..<i. F k) = (\<Sum>k = 0..<j + 1. F k) + (\<Sum>k = j + 1..<i. F k)"
    using assms by (intro sum.atLeastLessThan_concat [symmetric]) simp_all
  then show ?thesis by simp
qed

lemma s2il_lower_gt:
  assumes ic: "ic < nao" and gt: "jc < ic" and da: "d \<le> a" and d: "d < nao"
  shows "CVHFnrs8_jk_s2il_o0 eri dm vk nao ic jc (a * nao + d) =
    CVHFnrs8_jk_s1il_o0 eri dm vk nao ic jc (a * nao + d)"
proof -
  have z: "kcon nao dm e (a * nao + d) x y z w = 0" if "x < w" "w \<le> ic" for e x y z w
    using da d _ that(1) by (rule kcon_upper) (use that(2) ic in simp)
  have r1: "(\<Sum>l = 0..<k.
          kcon nao dm (eri (tri k l)) (a * nao + d) jc ic k l +
          kcon nao dm (eri (tri k l)) (a * nao + d) ic jc k l +
          kcon nao dm (eri (tri k l)) (a * nao + d) jc ic l k +
          kcon nao dm (eri (tri k l)) (a * nao + d) ic jc l k +
          kcon nao dm (eri (tri k l)) (a * nao + d) l k ic jc +
          kcon nao dm (eri (tri k l)) (a * nao + d) k l ic jc +
          kcon nao dm (eri (tri k l)) (a * nao + d) l k jc ic +
          kcon nao dm (eri (tri k l)) (a * nao + d) k l jc ic) +
        (kcon nao dm (eri (tri k k)) (a * nao + d) jc ic k k +
          kcon nao dm (eri (tri k k)) (a * nao + d) ic jc k k +
          kcon nao dm (eri (tri k k)) (a * nao + d) k k ic jc +
          kcon nao dm (eri (tri k k)) (a * nao + d) k k jc ic) =
        (\<Sum>l = 0..<k.
          kcon nao dm (eri (tri k l)) (a * nao + d) jc ic k l +
          kcon nao dm (eri (tri k l)) (a * nao + d) jc ic l k +
          kcon nao dm (eri (tri k l)) (a * nao + d) ic jc k l +
          kcon nao dm (eri (tri k l)) (a * nao + d) ic jc l k) +
        (kcon nao dm (eri (tri k k)) (a * nao + d) jc ic k k +
          kcon nao dm (eri (tri k k)) (a * nao + d) ic jc k k)"
    if "k < jc" for k
  proof -
    have "kcon nao dm (eri (tri k l)) (a * nao + d) jc ic k l +
          kcon nao dm (eri (tri k l)) (a * nao + d) ic jc k l +
          kcon nao dm (eri (tri k l)) (a * nao + d) jc ic l k +
          kcon nao dm (eri (tri k l)) (a * nao + d) ic jc l k +
          kcon nao dm (eri (tri k l)) (a * nao + d) l k ic jc +
          kcon nao dm (eri (tri k l)) (a * nao + d) k l ic jc +
          kcon nao dm (eri (tri k l)) (a * nao + d) l k jc ic +
          kcon nao dm (eri (tri k l)) (a * nao + d) k l jc ic =
          kcon nao dm (eri (tri k l)) (a * nao + d) jc ic k l +
          kcon nao dm (eri (tri k l)) (a * nao + d) jc ic l k +
          kcon nao dm (eri (tri k l)) (a * nao + d) ic jc k l +
          kcon nao dm (eri (tri k l)) (a * nao + d) ic jc l k"
      if "l < k" for l
      using that \<open>k < jc\<close> gt by (simp add: z)
    then have "(\<Sum>l = 0..<k.
          kcon nao dm (eri (tri k l)) (a * nao + d) jc ic k l +
          kcon nao dm (eri (tri k l)) (a * nao + d) ic jc k l +
          kcon nao dm (eri (tri k l)) (a * nao + d) jc ic l k +
          kcon nao dm (eri (tri k l)) (a * nao + d) ic jc l k +
          kcon nao dm (eri (tri k l)) (a * nao + d) l k ic jc +
          kcon nao dm (eri (tri k l)) (a * nao + d) k l ic jc +
          kcon nao dm (eri (tri k l)) (a * nao + d) l k jc ic +
          kcon nao dm (eri (tri k l)) (a * nao + d) k l jc ic) =
        (\<Sum>l = 0..<k.
          kcon nao dm (eri (tri k l)) (a * nao + d) jc ic k l +
          kcon nao dm (eri (tri k l)) (a * nao + d) jc ic l k +
          kcon nao dm (eri (tri k l)) (a * nao + d) ic jc k l +
          kcon nao dm (eri (tri k l)) (a * nao + d) ic jc l k)"
      by (intro sum.cong refl) simp
    moreover have "kcon nao dm (eri (tri k k)) (a * nao + d) jc ic k k +
          kcon nao dm (eri (tri k k)) (a * nao + d) ic jc k k +
          kcon nao dm (eri (tri k k)) (a * nao + d) k k ic jc +
          kcon nao dm (eri (tri k k)) (a * nao + d) k k jc ic =
          kcon nao dm (eri (tri k k)) (a * nao + d) jc ic k k +
          kcon nao dm (eri (tri k k)) (a * nao + d) ic jc k k"
      using \<open>k < jc\<close> gt by (simp add: z)
    ultimately show ?thesis by (simp only:)
  qed
  have r2: "(\<Sum>l = 0..<jc.
          kcon nao dm (eri (tri jc l)) (a * nao + d) jc ic jc l +
          kcon nao dm (eri (tri jc l)) (a * nao + d) ic jc jc l +
          kcon nao dm (eri (tri jc l)) (a * nao + d) jc ic l jc +
          kcon nao dm (eri (tri jc l)) (a * nao + d) ic jc l jc +
          kcon nao dm (eri (tri jc l)) (a * nao + d) l jc ic jc +
          kcon nao dm (eri (tri jc l)) (a * nao + d) jc l ic jc +
          kcon nao dm (eri (tri jc l)) (a * nao + d) l jc jc ic +
          kcon nao dm (eri (tri jc l)) (a * nao + d) jc l jc ic) +
        (kcon nao dm (eri (tri jc jc)) (a * nao + d) jc ic jc jc +
          kcon nao dm (eri (tri jc jc)) (a * nao + d) ic jc jc jc +
          kcon nao dm (eri (tri jc jc)) (a * nao + d) jc jc ic jc +
          kcon nao dm (eri (tri jc jc)) (a * nao + d) jc jc jc ic) =
        (\<Sum>l = 0..<jc.
          kcon nao dm (eri (tri jc l)) (a * nao + d) jc ic jc l +
          kcon nao dm (eri (tri jc l)) (a * nao + d) jc ic l jc +
          kcon nao dm (eri (tri jc l)) (a * nao + d) jc l ic jc +
          kcon nao dm (eri (tri jc l)) (a * nao + d) ic jc jc l +
          kcon nao dm (eri (tri jc l)) (a * nao + d) ic jc l jc) +
        (kcon nao dm (eri (tri jc jc)) (a * nao + d) jc ic jc jc +
          kcon nao dm (eri (tri jc jc)) (a * nao + d) jc jc ic jc +
          kcon nao dm (eri (tri jc jc)) (a * nao + d) ic jc jc jc)"
  proof -
    have "kcon nao dm (eri (tri jc l)) (a * nao + d) jc ic jc l +
          kcon nao dm (eri (tri jc l)) (a * nao + d) ic jc jc l +
          kcon nao dm (eri (tri jc l)) (a * nao + d) jc ic l jc +
          kcon nao dm (eri (tri jc l)) (a * nao + d) ic jc l jc +
          kcon nao dm (eri (tri jc l)) (a * nao + d) l jc ic jc +
          kcon nao dm (eri (tri jc l)) (a * nao + d) jc l ic jc +
          kcon nao dm (eri (tri jc l)) (a * nao + d) l jc jc ic +
          kcon nao dm (eri (tri jc l)) (a * nao + d) jc l jc ic =
          kcon nao dm (eri (tri jc l)) (a * nao + d) jc ic jc l +
          kcon nao dm (eri (tri jc l)) (a * nao + d) jc ic l jc +
          kcon nao dm (eri (tri jc l)) (a * nao + d) jc l ic jc +
          kcon nao dm (eri (tri jc l)) (a * nao + d) ic jc jc l +
          kcon nao dm (eri (tri jc l)) (a * nao + d) ic jc l jc"
      if "l < jc" for l
      using that gt by (simp add: z)
    then have "(\<Sum>l = 0..<jc.
          kcon nao dm (eri (tri jc l)) (a * nao + d) jc ic jc l +
          kcon nao dm (eri (tri jc l)) (a * nao + d) ic jc jc l +
          kcon nao dm (eri (tri jc l)) (a * nao + d) jc ic l jc +
          kcon nao dm (eri (tri jc l)) (a * nao + d) ic jc l jc +
          kcon nao dm (eri (tri jc l)) (a * nao + d) l jc ic jc +
          kcon nao dm (eri (tri jc l)) (a * nao + d) jc l ic jc +
          kcon nao dm (eri (tri jc l)) (a * nao + d) l jc jc ic +
          kcon nao dm (eri (tri jc l)) (a * nao + d) jc l jc ic) =
        (\<Sum>l = 0..<jc.
          kcon nao dm (eri (tri jc l)) (a * nao + d) jc ic jc l +
          kcon nao dm (eri (tri jc l)) (a * nao + d) jc ic l jc +
          kcon nao dm (eri (tri jc l)) (a * nao + d) jc l ic jc +
          kcon nao dm (eri (tri jc l)) (a * nao + d) ic jc jc l +
          kcon nao dm (eri (tri jc l)) (a * nao + d) ic jc l jc)"
      by (intro sum.cong refl) simp
    moreover have "kcon nao dm (eri (tri jc jc)) (a * nao + d) jc ic jc jc +
          kcon nao dm (eri (tri jc jc)) (a * nao + d) ic jc jc jc +
          kcon nao dm (eri (tri jc jc)) (a * nao + d) jc jc ic jc +
          kcon nao dm (eri (tri jc jc)) (a * nao + d) jc jc jc ic =
          kcon nao dm (eri (tri jc jc)) (a * nao + d) jc ic jc jc +
          kcon nao dm (eri (tri jc jc)) (a * nao + d) jc jc ic jc +
          kcon nao dm (eri (tri jc jc)) (a * nao + d) ic jc jc jc"
      using gt by (simp add: z)
    ultimately show ?thesis by (simp only:)
  qed
  have r3: "(\<Sum>l = 0..<k.
          kcon nao dm (eri (tri k l)) (a * nao + d) jc ic k l +
          kcon nao dm (eri (tri k l)) (a * nao + d) ic jc k l +
          kcon nao dm (eri (tri k l)) (a * nao + d) jc ic l k +
          kcon nao dm (eri (tri k l)) (a * nao + d) ic jc l k +
          kcon nao dm (eri (tri k l)) (a * nao + d) l k ic jc +
          kcon nao dm (eri (tri k l)) (a * nao + d) k l ic jc +
          kcon nao dm (eri (tri k l)) (a * nao + d) l k jc ic +
          kcon nao dm (eri (tri k l)) (a * nao + d) k l jc ic) +
        (kcon nao dm (eri (tri k k)) (a * nao + d) jc ic k k +
          kcon nao dm (eri (tri k k)) (a * nao + d) ic jc k k +
          kcon nao dm (eri (tri k k)) (a * nao + d) k k ic jc +
          kcon nao dm (eri (tri k k)) (a * nao + d) k k jc ic) =
        (\<Sum>l = 0..<jc.
          kcon nao dm (eri (tri k l)) (a * nao + d) jc ic k l +
          kcon nao dm (eri (tri k l)) (a * nao + d) ic jc k l +
          kcon nao dm (eri (tri k l)) (a * nao + d) ic jc l k +
          kcon nao dm (eri (tri k l)) (a * nao + d) k l ic jc) +
        (kcon nao dm (eri (tri k jc)) (a * nao + d) jc ic k jc +
          kcon nao dm (eri (tri k jc)) (a * nao + d) jc k ic jc +
          kcon nao dm (eri (tri k jc)) (a * nao + d) ic jc k jc +
          kcon nao dm (eri (tri k jc)) (a * nao + d) ic jc jc k +
          kcon nao dm (eri (tri k jc)) (a * nao + d) k jc ic jc) +
        (\<Sum>l = jc + 1..<k.
          kcon nao dm (eri (tri k l)) (a * nao + d) ic jc k l +
          kcon nao dm (eri (tri k l)) (a * nao + d) ic jc l k +
          kcon nao dm (eri (tri k l)) (a * nao + d) l k ic jc +
          kcon nao dm (eri (tri k l)) (a * nao + d) k l ic jc) +
        (kcon nao dm (eri (tri k k)) (a * nao + d) jc ic k k +
          kcon nao dm (eri (tri k k)) (a * nao + d) ic jc k k +
          kcon nao dm (eri (tri k k)) (a * nao + d) k k ic jc)"
    if "jc < k" "k < ic" for k
  proof -
    have a: "kcon nao dm (eri (tri k l)) (a * nao + d) jc ic k l +
          kcon nao dm (eri (tri k l)) (a * nao + d) ic jc k l +
          kcon nao dm (eri (tri k l)) (a * nao + d) jc ic l k +
          kcon nao dm (eri (tri k l)) (a * nao + d) ic jc l k +
          kcon nao dm (eri (tri k l)) (a * nao + d) l k ic jc +
          kcon nao dm (eri (tri k l)) (a * nao + d) k l ic jc +
          kcon nao dm (eri (tri k l)) (a * nao + d) l k jc ic +
          kcon nao dm (eri (tri k l)) (a * nao + d) k l jc ic =
          kcon nao dm (eri (tri k l)) (a * nao + d) jc ic k l +
          kcon nao dm (eri (tri k l)) (a * nao + d) ic jc k l +
          kcon nao dm (eri (tri k l)) (a * nao + d) ic jc l k +
          kcon nao dm (eri (tri k l)) (a * nao + d) k l ic jc"
      if "l < jc" for l
      using that \<open>jc < k\<close> \<open>k < ic\<close> by (simp add: z)
    have m: "kcon nao dm (eri (tri k jc)) (a * nao + d) jc ic k jc +
          kcon nao dm (eri (tri k jc)) (a * nao + d) ic jc k jc +
          kcon nao dm (eri (tri k jc)) (a * nao + d) jc ic jc k +
          kcon nao dm (eri (tri k jc)) (a * nao + d) ic jc jc k +
          kcon nao dm (eri (tri k jc)) (a * nao + d) jc k ic jc +
          kcon nao dm (eri (tri k jc)) (a * nao + d) k jc ic jc +
          kcon nao dm (eri (tri k jc)) (a * nao + d) jc k jc ic +
          kcon nao dm (eri (tri k jc)) (a * nao + d) k jc jc ic =
          kcon nao dm (eri (tri k jc)) (a * nao + d) jc ic k jc +
          kcon nao dm (eri (tri k jc)) (a * nao + d) jc k ic jc +
          kcon nao dm (eri (tri k jc)) (a * nao + d) ic jc k jc +
          kcon nao dm (eri (tri k jc)) (a * nao + d) ic jc jc k +
          kcon nao dm (eri (tri k jc)) (a * nao + d) k jc ic jc"
      using \<open>jc < k\<close> \<open>k < ic\<close> by (simp add: z)
    have b: "kcon nao dm (eri (tri k l)) (a * nao + d) jc ic k l +
          kcon nao dm (eri (tri k l)) (a * nao + d) ic jc k l +
          kcon nao dm (eri (tri k l)) (a * nao + d) jc ic l k +
          kcon nao dm (eri (tri k l)) (a * nao + d) ic jc l k +
          kcon nao dm (eri (tri k l)) (a * nao + d) l k ic jc +
          kcon nao dm (eri (tri k l)) (a * nao + d) k l ic jc +
          kcon nao dm (eri (tri k l)) (a * nao + d) l k jc ic +
          kcon nao dm (eri (tri k l)) (a * nao + d) k l jc ic =
          kcon nao dm (eri (tri k l)) (a * nao + d) ic jc k l +
          kcon nao dm (eri (tri k l)) (a * nao + d) ic jc l k +
          kcon nao dm (eri (tri k l)) (a * nao + d) l k ic jc +
          kcon nao dm (eri (tri k l)) (a * nao + d) k l ic jc"
      if "jc < l" "l < k" for l
      using that \<open>jc < k\<close> \<open>k < ic\<close> by (simp add: z)
    have dd: "kcon nao dm (eri (tri k k)) (a * nao + d) jc ic k k +
          kcon nao dm (eri (tri k k)) (a * nao + d) ic jc k k +
          kcon nao dm (eri (tri k k)) (a * nao + d) k k ic jc +
          kcon nao dm (eri (tri k k)) (a * nao + d) k k jc ic =
          kcon nao dm (eri (tri k k)) (a * nao + d) jc ic k k +
          kcon nao dm (eri (tri k k)) (a * nao + d) ic jc k k +
          kcon nao dm (eri (tri k k)) (a * nao + d) k k ic jc"
      using \<open>jc < k\<close> \<open>k < ic\<close> by (simp add: z)
    have "(\<Sum>l = 0..<k.
          kcon nao dm (eri (tri k l)) (a * nao + d) jc ic k l +
          kcon nao dm (eri (tri k l)) (a * nao + d) ic jc k l +
          kcon nao dm (eri (tri k l)) (a * nao + d) jc ic l k +
          kcon nao dm (eri (tri k l)) (a * nao + d) ic jc l k +
          kcon nao dm (eri (tri k l)) (a * nao + d) l k ic jc +
          kcon nao dm (eri (tri k l)) (a * nao + d) k l ic jc +
          kcon nao dm (eri (tri k l)) (a * nao + d) l k jc ic +
          kcon nao dm (eri (tri k l)) (a * nao + d) k l jc ic) =
        (\<Sum>l = 0..<jc.
          kcon nao dm (eri (tri k l)) (a * nao + d) jc ic k l +
          kcon nao dm (eri (tri k l)) (a * nao + d) ic jc k l +
          kcon nao dm (eri (tri k l)) (a * nao + d) jc ic l k +
          kcon nao dm (eri (tri k l)) (a * nao + d) ic jc l k +
          kcon nao dm (eri (tri k l)) (a * nao + d) l k ic jc +
          kcon nao dm (eri (tri k l)) (a * nao + d) k l ic jc +
          kcon nao dm (eri (tri k l)) (a * nao + d) l k jc ic +
          kcon nao dm (eri (tri k l)) (a * nao + d) k l jc ic) +
        (kcon nao dm (eri (tri k jc)) (a * nao + d) jc ic k jc +
          kcon nao dm (eri (tri k jc)) (a * nao + d) ic jc k jc +
          kcon nao dm (eri (tri k jc)) (a * nao + d) jc ic jc k +
          kcon nao dm (eri (tri k jc)) (a * nao + d) ic jc jc k +
          kcon nao dm (eri (tri k jc)) (a * nao + d) jc k ic jc +
          kcon nao dm (eri (tri k jc)) (a * nao + d) k jc ic jc +
          kcon nao dm (eri (tri k jc)) (a * nao + d) jc k jc ic +
          kcon nao dm (eri (tri k jc)) (a * nao + d) k jc jc ic) +
        (\<Sum>l = jc + 1..<k.
          kcon nao dm (eri (tri k l)) (a * nao + d) jc ic k l +
          kcon nao dm (eri (tri k l)) (a * nao + d) ic jc k l +
          kcon nao dm (eri (tri k l)) (a * nao + d) jc ic l k +
          kcon nao dm (eri (tri k l)) (a * nao + d) ic jc l k +
          kcon nao dm (eri (tri k l)) (a * nao + d) l k ic jc +
          kcon nao dm (eri (tri k l)) (a * nao + d) k l ic jc +
          kcon nao dm (eri (tri k l)) (a * nao + d) l k jc ic +
          kcon nao dm (eri (tri k l)) (a * nao + d) k l jc ic)"
      using \<open>jc < k\<close> by (rule sum_split3)
    also have "(\<Sum>l = 0..<jc.
          kcon nao dm (eri (tri k l)) (a * nao + d) jc ic k l +
          kcon nao dm (eri (tri k l)) (a * nao + d) ic jc k l +
          kcon nao dm (eri (tri k l)) (a * nao + d) jc ic l k +
          kcon nao dm (eri (tri k l)) (a * nao + d) ic jc l k +
          kcon nao dm (eri (tri k l)) (a * nao + d) l k ic jc +
          kcon nao dm (eri (tri k l)) (a * nao + d) k l ic jc +
          kcon nao dm (eri (tri k l)) (a * nao + d) l k jc ic +
          kcon nao dm (eri (tri k l)) (a * nao + d) k l jc ic) =
        (\<Sum>l = 0..<jc.
          kcon nao dm (eri (tri k l)) (a * nao + d) jc ic k l +
          kcon nao dm (eri (tri k l)) (a * nao + d) ic jc k l +
          kcon nao dm (eri (tri k l)) (a * nao + d) ic jc l k +
          kcon nao dm (eri (tri k l)) (a * nao + d) k l ic jc)"
      by (intro sum.cong refl a) simp
    also have "(\<Sum>l = jc + 1..<k.
          kcon nao dm (eri (tri k l)) (a * nao + d) jc ic k l +
          kcon nao dm (eri (tri k l)) (a * nao + d) ic jc k l +
          kcon nao dm (eri (tri k l)) (a * nao + d) jc ic l k +
          kcon nao dm (eri (tri k l)) (a * nao + d) ic jc l k +
          kcon nao dm (eri (tri k l)) (a * nao + d) l k ic jc +
          kcon nao dm (eri (tri k l)) (a * nao + d) k l ic jc +
          kcon nao dm (eri (tri k l)) (a * nao + d) l k jc ic +
          kcon nao dm (eri (tri k l)) (a * nao + d) k l jc ic) =
        (\<Sum>l = jc + 1..<k.
          kcon nao dm (eri (tri k l)) (a * nao + d) ic jc k l +
          kcon nao dm (eri (tri k l)) (a * nao + d) ic jc l k +
          kcon nao dm (eri (tri k l)) (a * nao + d) l k ic jc +
          kcon nao dm (eri (tri k l)) (a * nao + d) k l ic jc)"
      by (intro sum.cong refl b) simp_all
    finally show ?thesis
      unfolding m dd by simp
  qed
  have r4: "(\<Sum>l = 0..<jc.
          kcon nao dm (eri (tri ic l)) (a * nao + d) jc ic ic l +
          kcon nao dm (eri (tri ic l)) (a * nao + d) ic jc ic l +
          kcon nao dm (eri (tri ic l)) (a * nao + d) jc ic l ic +
          kcon nao dm (eri (tri ic l)) (a * nao + d) ic jc l ic +
          kcon nao dm (eri (tri ic l)) (a * nao + d) l ic ic jc +
          kcon nao dm (eri (tri ic l)) (a * nao + d) ic l ic jc +
          kcon nao dm (eri (tri ic l)) (a * nao + d) l ic jc ic +
          kcon nao dm (eri (tri ic l)) (a * nao + d) ic l jc ic) =
        (\<Sum>l = 0..<jc.
          kcon nao dm (eri (tri ic l)) (a * nao + d) jc ic ic l +
          kcon nao dm (eri (tri ic l)) (a * nao + d) ic jc ic l +
          kcon nao dm (eri (tri ic l)) (a * nao + d) ic jc l ic +
          kcon nao dm (eri (tri ic l)) (a * nao + d) ic l jc ic +
          kcon nao dm (eri (tri ic l)) (a * nao + d) ic l ic jc)"
  proof -
    have "kcon nao dm (eri (tri ic l)) (a * nao + d) jc ic ic l +
          kcon nao dm (eri (tri ic l)) (a * nao + d) ic jc ic l +
          kcon nao dm (eri (tri ic l)) (a * nao + d) jc ic l ic +
          kcon nao dm (eri (tri ic l)) (a * nao + d) ic jc l ic +
          kcon nao dm (eri (tri ic l)) (a * nao + d) l ic ic jc +
          kcon nao dm (eri (tri ic l)) (a * nao + d) ic l ic jc +
          kcon nao dm (eri (tri ic l)) (a * nao + d) l ic jc ic +
          kcon nao dm (eri (tri ic l)) (a * nao + d) ic l jc ic =
          kcon nao dm (eri (tri ic l)) (a * nao + d) jc ic ic l +
          kcon nao dm (eri (tri ic l)) (a * nao + d) ic jc ic l +
          kcon nao dm (eri (tri ic l)) (a * nao + d) ic jc l ic +
          kcon nao dm (eri (tri ic l)) (a * nao + d) ic l jc ic +
          kcon nao dm (eri (tri ic l)) (a * nao + d) ic l ic jc"
      if "l < jc" for l
      using that gt by (simp add: z)
    then show ?thesis
      by (intro sum.cong refl) simp
  qed
  have r5: "kcon nao dm (eri (tri ic jc)) (a * nao + d) jc ic ic jc +
          kcon nao dm (eri (tri ic jc)) (a * nao + d) ic jc ic jc +
          kcon nao dm (eri (tri ic jc)) (a * nao + d) jc ic jc ic +
          kcon nao dm (eri (tri ic jc)) (a * nao + d) ic jc jc ic =
          kcon nao dm (eri (tri ic jc)) (a * nao + d) jc ic ic jc +
          kcon nao dm (eri (tri ic jc)) (a * nao + d) ic jc ic jc +
          kcon nao dm (eri (tri ic jc)) (a * nao + d) ic jc jc ic"
    using gt by (simp add: z)
  have s1: "(\<Sum>k = 0..<jc.
        (\<Sum>l = 0..<k.
          kcon nao dm (eri (tri k l)) (a * nao + d) jc ic k l +
          kcon nao dm (eri (tri k l)) (a * nao + d) ic jc k l +
          kcon nao dm (eri (tri k l)) (a * nao + d) jc ic l k +
          kcon nao dm (eri (tri k l)) (a * nao + d) ic jc l k +
          kcon nao dm (eri (tri k l)) (a * nao + d) l k ic jc +
          kcon nao dm (eri (tri k l)) (a * nao + d) k l ic jc +
          kcon nao dm (eri (tri k l)) (a * nao + d) l k jc ic +
          kcon nao dm (eri (tri k l)) (a * nao + d) k l jc ic) +
        (kcon nao dm (eri (tri k k)) (a * nao + d) jc ic k k +
          kcon nao dm (eri (tri k k)) (a * nao + d) ic jc k k +
          kcon nao dm (eri (tri k k)) (a * nao + d) k k ic jc +
          kcon nao dm (eri (tri k k)) (a * nao + d) k k jc ic)) =
      (\<Sum>k = 0..<jc.
        (\<Sum>l = 0..<k.
          kcon nao dm (eri (tri k l)) (a * nao + d) jc ic k l +
          kcon nao dm (eri (tri k l)) (a * nao + d) jc ic l k +
          kcon nao dm (eri (tri k l)) (a * nao + d) ic jc k l +
          kcon nao dm (eri (tri k l)) (a * nao + d) ic jc l k) +
        (kcon nao dm (eri (tri k k)) (a * nao + d) jc ic k k +
          kcon nao dm (eri (tri k k)) (a * nao + d) ic jc k k))"
    by (intro sum.cong refl r1) simp
  have s3: "(\<Sum>k = jc + 1..<ic.
        (\<Sum>l = 0..<k.
          kcon nao dm (eri (tri k l)) (a * nao + d) jc ic k l +
          kcon nao dm (eri (tri k l)) (a * nao + d) ic jc k l +
          kcon nao dm (eri (tri k l)) (a * nao + d) jc ic l k +
          kcon nao dm (eri (tri k l)) (a * nao + d) ic jc l k +
          kcon nao dm (eri (tri k l)) (a * nao + d) l k ic jc +
          kcon nao dm (eri (tri k l)) (a * nao + d) k l ic jc +
          kcon nao dm (eri (tri k l)) (a * nao + d) l k jc ic +
          kcon nao dm (eri (tri k l)) (a * nao + d) k l jc ic) +
        (kcon nao dm (eri (tri k k)) (a * nao + d) jc ic k k +
          kcon nao dm (eri (tri k k)) (a * nao + d) ic jc k k +
          kcon nao dm (eri (tri k k)) (a * nao + d) k k ic jc +
          kcon nao dm (eri (tri k k)) (a * nao + d) k k jc ic)) =
      (\<Sum>k = jc + 1..<ic.
        (\<Sum>l = 0..<jc.
          kcon nao dm (eri (tri k l)) (a * nao + d) jc ic k l +
          kcon nao dm (eri (tri k l)) (a * nao + d) ic jc k l +
          kcon nao dm (eri (tri k l)) (a * nao + d) ic jc l k +
          kcon nao dm (eri (tri k l)) (a * nao + d) k l ic jc) +
        (kcon nao dm (eri (tri k jc)) (a * nao + d) jc ic k jc +
          kcon nao dm (eri (tri k jc)) (a * nao + d) jc k ic jc +
          kcon nao dm (eri (tri k jc)) (a * nao + d) ic jc k jc +
          kcon nao dm (eri (tri k jc)) (a * nao + d) ic jc jc k +
          kcon nao dm (eri (tri k jc)) (a * nao + d) k jc ic jc) +
        (\<Sum>l = jc + 1..<k.
          kcon nao dm (eri (tri k l)) (a * nao + d) ic jc k l +
          kcon nao dm (eri (tri k l)) (a * nao + d) ic jc l k +
          kcon nao dm (eri (tri k l)) (a * nao + d) l k ic jc +
          kcon nao dm (eri (tri k l)) (a * nao + d) k l ic jc) +
        (kcon nao dm (eri (tri k k)) (a * nao + d) jc ic k k +
          kcon nao dm (eri (tri k k)) (a * nao + d) ic jc k k +
          kcon nao dm (eri (tri k k)) (a * nao + d) k k ic jc))"
    by (intro sum.cong refl r3) simp_all
  have sp: "(\<Sum>k = 0..<ic.
        (\<Sum>l = 0..<k.
          kcon nao dm (eri (tri k l)) (a * nao + d) jc ic k l +
          kcon nao dm (eri (tri k l)) (a * nao + d) ic jc k l +
          kcon nao dm (eri (tri k l)) (a * nao + d) jc ic l k +
          kcon nao dm (eri (tri k l)) (a * nao + d) ic jc l k +
          kcon nao dm (eri (tri k l)) (a * nao + d) l k ic jc +
          kcon nao dm (eri (tri k l)) (a * nao + d) k l ic jc +
          kcon nao dm (eri (tri k l)) (a * nao + d) l k jc ic +
          kcon nao dm (eri (tri k l)) (a * nao + d) k l jc ic) +
        (kcon nao dm (eri (tri k k)) (a * nao + d) jc ic k k +
          kcon nao dm (eri (tri k k)) (a * nao + d) ic jc k k +
          kcon nao dm (eri (tri k k)) (a * nao + d) k k ic jc +
          kcon nao dm (eri (tri k k)) (a * nao + d) k k jc ic)) =
      (\<Sum>k = 0..<jc.
        (\<Sum>l = 0..<k.
          kcon nao dm (eri (tri k l)) (a * nao + d) jc ic k l +
          kcon nao dm (eri (tri k l)) (a * nao + d) ic jc k l +
          kcon nao dm (eri (tri k l)) (a * nao + d) jc ic l k +
          kcon nao dm (eri (tri k l)) (a * nao + d) ic jc l k +
          kcon nao dm (eri (tri k l)) (a * nao + d) l k ic jc +
          kcon nao dm (eri (tri k l)) (a * nao + d) k l ic jc +
          kcon nao dm (eri (tri k l)) (a * nao + d) l k jc ic +
          kcon nao dm (eri (tri k l)) (a * nao + d) k l jc ic) +
        (kcon nao dm (eri (tri k k)) (a * nao + d) jc ic k k +
          kcon nao dm (eri (tri k k)) (a * nao + d) ic jc k k +
          kcon nao dm (eri (tri k k)) (a * nao + d) k k ic jc +
          kcon nao dm (eri (tri k k)) (a * nao + d) k k jc ic)) +
      ((\<Sum>l = 0..<jc.
          kcon nao dm (eri (tri jc l)) (a * nao + d) jc ic jc l +
          kcon nao dm (eri (tri jc l)) (a * nao + d) ic jc jc l +
          kcon nao dm (eri (tri jc l)) (a * nao + d) jc ic l jc +
          kcon nao dm (eri (tri jc l)) (a * nao + d) ic jc l jc +
          kcon nao dm (eri (tri jc l)) (a * nao + d) l jc ic jc +
          kcon nao dm (eri (tri jc l)) (a * nao + d) jc l ic jc +
          kcon nao dm (eri (tri jc l)) (a * nao + d) l jc jc ic +
          kcon nao dm (eri (tri jc l)) (a * nao + d) jc l jc ic) +
        (kcon nao dm (eri (tri jc jc)) (a * nao + d) jc ic jc jc +
          kcon nao dm (eri (tri jc jc)) (a * nao + d) ic jc jc jc +
          kcon nao dm (eri (tri jc jc)) (a * nao + d) jc jc ic jc +
          kcon nao dm (eri (tri jc jc)) (a * nao + d) jc jc jc ic)) +
      (\<Sum>k = jc + 1..<ic.
        (\<Sum>l = 0..<k.
          kcon nao dm (eri (tri k l)) (a * nao + d) jc ic k l +
          kcon nao dm (eri (tri k l)) (a * nao + d) ic jc k l +
          kcon nao dm (eri (tri k l)) (a * nao + d) jc ic l k +
          kcon nao dm (eri (tri k l)) (a * nao + d) ic jc l k +
          kcon nao dm (eri (tri k l)) (a * nao + d) l k ic jc +
          kcon nao dm (eri (tri k l)) (a * nao + d) k l ic jc +
          kcon nao dm (eri (tri k l)) (a * nao + d) l k jc ic +
          kcon nao dm (eri (tri k l)) (a * nao + d) k l jc ic) +
        (kcon nao dm (eri (tri k k)) (a * nao + d) jc ic k k +
          kcon nao dm (eri (tri k k)) (a * nao + d) ic jc k k +
          kcon nao dm (eri (tri k k)) (a * nao + d) k k ic jc +
          kcon nao dm (eri (tri k k)) (a * nao + d) k k jc ic))"
    using gt by (rule sum_split3)
  show ?thesis
    unfolding s8_jk_s2il_gt [OF gt] s8_jk_s1il_gt [OF gt] sp s1 r2 s3 r4 r5
    by simp
qed


lemma s2il_lower_eq:
  assumes ic: "ic < nao" and da: "d \<le> a" and d: "d < nao"
  shows "CVHFnrs8_jk_s2il_o0 eri dm vk nao ic ic (a * nao + d) =
    CVHFnrs8_jk_s1il_o0 eri dm vk nao ic ic (a * nao + d)"
proof -
  have z: "kcon nao dm e (a * nao + d) x y z w = 0" if "x < w" "w \<le> ic" for e x y z w
    using da d _ that(1) by (rule kcon_upper) (use that(2) ic in simp)
  have r: "(\<Sum>l = 0..<k.
          kcon nao dm (eri (tri k l)) (a * nao + d) ic ic k l +
          kcon nao dm (eri (tri k l)) (a * nao + d) ic ic l k +
          kcon nao dm (eri (tri k l)) (a * nao + d) l k ic ic +
          kcon nao dm (eri (tri k l)) (a * nao + d) k l ic ic) +
        (kcon nao dm (eri (tri k k)) (a * nao + d) ic ic k k +
          kcon nao dm (eri (tri k k)) (a * nao + d) k k ic ic) =
      (\<Sum>l = 0..<k.
          kcon nao dm (eri (tri k l)) (a * nao + d) ic ic k l +
          kcon nao dm (eri (tri k l)) (a * nao + d) ic ic l k) +
        kcon nao dm (eri (tri k k)) (a * nao + d) ic ic k k"
    if "k < ic" for k
  proof -
    have "kcon nao dm (eri (tri k l)) (a * nao + d) ic ic k l +
          kcon nao dm (eri (tri k l)) (a * nao + d) ic ic l k +
          kcon nao dm (eri (tri k l)) (a * nao + d) l k ic ic +
          kcon nao dm (eri (tri k l)) (a * nao + d) k l ic ic =
          kcon nao dm (eri (tri k l)) (a * nao + d) ic ic k l +
          kcon nao dm (eri (tri k l)) (a * nao + d) ic ic l k"
      if "l < k" for l
      using that \<open>k < ic\<close> by (simp add: z)
    then have "(\<Sum>l = 0..<k.
          kcon nao dm (eri (tri k l)) (a * nao + d) ic ic k l +
          kcon nao dm (eri (tri k l)) (a * nao + d) ic ic l k +
          kcon nao dm (eri (tri k l)) (a * nao + d) l k ic ic +
          kcon nao dm (eri (tri k l)) (a * nao + d) k l ic ic) =
      (\<Sum>l = 0..<k.
          kcon nao dm (eri (tri k l)) (a * nao + d) ic ic k l +
          kcon nao dm (eri (tri k l)) (a * nao + d) ic ic l k)"
      by (intro sum.cong refl) simp
    moreover have "(kcon nao dm (eri (tri k k)) (a * nao + d) ic ic k k +
          kcon nao dm (eri (tri k k)) (a * nao + d) k k ic ic) =
        kcon nao dm (eri (tri k k)) (a * nao + d) ic ic k k"
      using \<open>k < ic\<close> by (simp add: z)
    ultimately show ?thesis by (simp only:)
  qed
  have s1: "(\<Sum>k = 0..<ic.
        (\<Sum>l = 0..<k.
          kcon nao dm (eri (tri k l)) (a * nao + d) ic ic k l +
          kcon nao dm (eri (tri k l)) (a * nao + d) ic ic l k +
          kcon nao dm (eri (tri k l)) (a * nao + d) l k ic ic +
          kcon nao dm (eri (tri k l)) (a * nao + d) k l ic ic) +
        (kcon nao dm (eri (tri k k)) (a * nao + d) ic ic k k +
          kcon nao dm (eri (tri k k)) (a * nao + d) k k ic ic)) =
      (\<Sum>k = 0..<ic.
        (\<Sum>l = 0..<k.
          kcon nao dm (eri (tri k l)) (a * nao + d) ic ic k l +
          kcon nao dm (eri (tri k l)) (a * nao + d) ic ic l k) +
        kcon nao dm (eri (tri k k)) (a * nao + d) ic ic k k)"
    by (intro sum.cong refl r) simp
  have s2: "(\<Sum>l = 0..<ic.
          kcon nao dm (eri (tri ic l)) (a * nao + d) ic ic ic l +
          kcon nao dm (eri (tri ic l)) (a * nao + d) ic ic l ic +
          kcon nao dm (eri (tri ic l)) (a * nao + d) l ic ic ic +
          kcon nao dm (eri (tri ic l)) (a * nao + d) ic l ic ic) =
      (\<Sum>l = 0..<ic.
          kcon nao dm (eri (tri ic l)) (a * nao + d) ic ic ic l +
          kcon nao dm (eri (tri ic l)) (a * nao + d) ic ic l ic +
          kcon nao dm (eri (tri ic l)) (a * nao + d) ic l ic ic)"
  proof -
    have "kcon nao dm (eri (tri ic l)) (a * nao + d) ic ic ic l +
          kcon nao dm (eri (tri ic l)) (a * nao + d) ic ic l ic +
          kcon nao dm (eri (tri ic l)) (a * nao + d) l ic ic ic +
          kcon nao dm (eri (tri ic l)) (a * nao + d) ic l ic ic =
          kcon nao dm (eri (tri ic l)) (a * nao + d) ic ic ic l +
          kcon nao dm (eri (tri ic l)) (a * nao + d) ic ic l ic +
          kcon nao dm (eri (tri ic l)) (a * nao + d) ic l ic ic"
      if "l < ic" for l
      using that by (simp add: z)
    then show ?thesis
      by (intro sum.cong refl) simp
  qed
  show ?thesis
    unfolding s8_jk_s2il_eq s8_jk_s1il_eq s1 s2 ..
qed

lemma s2il_lower:
  assumes "ic < nao" and "jc \<le> ic" and "d \<le> a" and "d < nao"
  shows "CVHFnrs8_jk_s2il_o0 eri dm vk nao ic jc (a * nao + d) =
    CVHFnrs8_jk_s1il_o0 eri dm vk nao ic jc (a * nao + d)"
proof (cases "jc < ic")
  case True
  with assms show ?thesis by (intro s2il_lower_gt)
next
  case False
  then have "jc = ic" using assms(2) by simp
  with assms show ?thesis by (simp add: s2il_lower_eq)
qed

lemma einsum_K_symmetric:
  assumes "s8_symmetric n T" and "dm_symmetric n dm" and "i < n" and "l < n"
  shows "einsum_K n T dm i l = einsum_K n T dm l i"
proof -
  have "(\<Sum>j<n. \<Sum>k<n. T l j k i * dm (j * n + k)) = (\<Sum>j<n. \<Sum>k<n. T i k j l * dm (k * n + j))"
  proof (intro sum.cong refl)
    fix j k
    assume "j \<in> {..<n}" "k \<in> {..<n}"
    then have jk: "j < n" "k < n" by simp_all
    have "T l j k i = T k i l j"
      using s8_orbit(4) [OF assms(1) jk(2) assms(3,4) jk(1)] by simp
    also have "\<dots> = T i k j l"
      using s8_orbit(3) [OF assms(1) assms(3) jk(2) jk(1) assms(4)] by simp
    finally have "T l j k i = T i k j l" .
    moreover have "dm (j * n + k) = dm (k * n + j)"
      using assms(2) jk unfolding dm_symmetric_def by simp
    ultimately show "T l j k i * dm (j * n + k) = T i k j l * dm (k * n + j)" by simp
  qed
  also have "\<dots> = (\<Sum>k<n. \<Sum>j<n. T i k j l * dm (k * n + j))"
    by (rule sum.swap)
  finally show ?thesis
    unfolding einsum_K_def by simp
qed

lemma s8_vk_s2il_sum:
  assumes "n * (n + 1) \<le> 2147483647" and "valid_sched (npair_of n) sched"
    and "l \<le> i" and "i < n"
  shows "snd (CVHFnrs8_incore_drv sched eri dmj vj dmk vk n fvj CVHFnrs8_jk_s2il) (i * n + l) =
    snd (CVHFnrs8_incore_drv sched eri dmj vj dmk vk n fvj CVHFnrs8_jk_s1il) (i * n + l)"
proof -
  have a1: "accumulating CVHFnrs8_jk_s1il" and a2: "accumulating CVHFnrs8_jk_s2il"
    by (rule kernels_accumulating, simp add: kernels_def)+
  have l: "l < n" using assms(3,4) by simp
  have p: "i * n + l < n * n"
    using assms(4) l by (rule cell_less)
  have n: "n \<le> 46340" using assms(1) by (rule int_safe_bound)
  have call: "CVHFnrs8_jk_s2il (ptr_add eri (tri a b * (tri a b + 1) div 2)) dmk zeros n
        (tri_unfold_i (tri a b)) (tri a b - tri_unfold_i (tri a b) * (tri_unfold_i (tri a b) + 1) div 2)
        (i * n + l) =
      CVHFnrs8_jk_s1il (ptr_add eri (tri a b * (tri a b + 1) div 2)) dmk zeros n
        (tri_unfold_i (tri a b)) (tri a b - tri_unfold_i (tri a b) * (tri_unfold_i (tri a b) + 1) div 2)
        (i * n + l)"
    if "a < n" "b < Suc a" for a b
  proof -
    have "b \<le> a" using that(2) by simp
    moreover have "a \<le> 46340" using that(1) n by simp
    ultimately have u: "tri_unfold_i (tri a b) = a" by (rule tri_unfold_i_tri)
    show ?thesis
      unfolding u tri_offset(1) CVHFnrs8_jk_s2il_def CVHFnrs8_jk_s1il_def
      using that(1) \<open>b \<le> a\<close> assms(3) l by (rule s2il_lower)
  qed
  show ?thesis
    unfolding nrs8_drv_snd [OF a1 assms(2) p] nrs8_drv_snd [OF a2 assms(2) p] sum_npair
    by (intro sum.cong refl call) simp_all
qed

lemma s8_vk_s2il_einsum:
  assumes "n * (n + 1) \<le> 2147483647" and "s8_symmetric n T" and "s8_layout n T eri"
    and "valid_sched (npair_of n) sched" and "l \<le> i" and "i < n"
  shows "snd (CVHFnrs8_incore_drv sched eri dmj vj dmk vk n fvj CVHFnrs8_jk_s2il) (i * n + l) =
    einsum_K n T dmk i l"
proof -
  have l: "l < n" using assms(5,6) by simp
  have p: "i * n + l < n * n"
    using assms(6) l by (rule cell_less)
  show ?thesis
    unfolding s8_vk_s2il_sum [OF assms(1,4,5,6)] s8_vk_sum [OF assms(1-4) p]
    using assms(6) l by (rule kten_total)
qed

lemma sum_three:
  fixes f :: "nat \<Rightarrow> real"
  shows "(\<Sum>ij<3. f ij) = f 0 + f 1 + f 2"
  by (simp add: numeral_3_eq_3 numeral_2_eq_2)

lemma s2il_upper_untouched:
  assumes "valid_sched (npair_of 2) sched"
  shows "snd (CVHFnrs8_incore_drv sched (\<lambda>p. [1, 2, 4, 3, 6, 9] ! p) dmj vj (\<lambda>p. [1, 2, 2, 5] ! p) vk 2 fvj
      CVHFnrs8_jk_s2il) (0 * 2 + 1) = 0"
proof -
  have a: "accumulating CVHFnrs8_jk_s2il"
    by (rule kernels_accumulating, simp add: kernels_def)
  have p: "0 * 2 + 1 < (2::nat) * 2" by simp
  have t: "tri 0 0 = 0" "tri 1 0 = 1" "tri 1 1 = 2"
    by (simp_all add: tri_def)
  have u: "tri_unfold_i 0 = 0" "tri_unfold_i 1 = 1" "tri_unfold_i 2 = 1"
    using tri_unfold_i_tri [of 0 0] tri_unfold_i_tri [of 0 1] tri_unfold_i_tri [of 1 1]
    unfolding t by simp_all
  have np: "npair_of 2 = 3" by (simp add: npair_of_def)
  have c0: "CVHFnrs8_jk_s2il (ptr_add (\<lambda>p. [1, 2, 4, 3, 6, 9] ! p) 0) (\<lambda>p. [1, 2, 2, 5] ! p) zeros 2 0 0 1 = 0"
    by (simp add: CVHFnrs8_jk_s2il_def s8_jk_s2il_eq kcon_def hit_def tri_def ptr_add_def zeros_def)
  have c1: "CVHFnrs8_jk_s2il (ptr_add (\<lambda>p. [1, 2, 4, 3, 6, 9] ! p) 1) (\<lambda>p. [1, 2, 2, 5] ! p) zeros 2 1 0 1 = 0"
    by (simp add: CVHFnrs8_jk_s2il_def s8_jk_s2il_gt kcon_def hit_def tri_def ptr_add_def zeros_def)
  have c2: "CVHFnrs8_jk_s2il (ptr_add (\<lambda>p. [1, 2, 4, 3, 6, 9] ! p) 3) (\<lambda>p. [1, 2, 2, 5] ! p) zeros 2 1 1 1 = 0"
    by (simp add: CVHFnrs8_jk_s2il_def s8_jk_s2il_eq kcon_def hit_def tri_def ptr_add_def zeros_def)
  show ?thesis
    unfolding nrs8_drv_snd [OF a assms p] np sum_three u
    using c0 c1 c2 by simp
qed

section \<open>The no-symmetry driver on the identity density matrix\<close>

text \<open>
  C9.  With \<open>dm\<close> the identity matrix and a dense tensor \<open>T\<close> in the \<^verbatim>\<open>s1\<close>
  layout, \<^verbatim>\<open>CVHFnrs1_incore_drv\<close> with the J kernel \<^verbatim>\<open>CVHFnrs1_kl_s1ij\<close> leaves
  \<open>\<Sum>k<n. T i j k k\<close> in \<^verbatim>\<open>vj[i*n+j]\<close>, for all \<open>i, j < n\<close>, under every schedule
  and whatever the K kernel is.  The witness is the scenario \<open>n = 3\<close>.
\<close>

theorem s1_identity_vj:
  assumes "s1_layout n T eri" and "dm_identity n dmj" and "valid_sched (n * n) sched"
    and "i < n" and "j < n"
  shows "fst (CVHFnrs1_incore_drv sched eri dmj vj dmk vk n CVHFnrs1_kl_s1ij fvk) (i * n + j) =
    (\<Sum>k<n. T i j k k)"
proof -
  have a: "accumulating CVHFnrs1_kl_s1ij"
    by (rule kernels_accumulating) (simp add: kernels_def)
  have p: "i * n + j < n * n"
    using assms(4,5) by (rule cell_less)
  have k: "CVHFnrs1_kl_s1ij (ptr_add eri (ij * n * n)) dmj zeros n (ij div n) (ij - ij div n * n) q =
      hit q ij (\<Sum>k<n. \<Sum>l<n. eri (ij * n * n + (k * n + l)) * dmj (k * n + l))" for ij q
    by (simp add: CVHFnrs1_kl_s1ij_def acc_hit zeros_def div_mod_cell ddot_sum sum_rows ptr_add_def)
  have "fst (CVHFnrs1_incore_drv sched eri dmj vj dmk vk n CVHFnrs1_kl_s1ij fvk) (i * n + j) =
      (\<Sum>k<n. \<Sum>l<n. eri ((i * n + j) * n * n + (k * n + l)) * dmj (k * n + l))"
    unfolding nrs1_drv_fst [OF a assms(3) p] k using p by (rule sum_hit)
  also have "\<dots> = (\<Sum>k<n. \<Sum>l<n. T i j k l * (if k = l then 1 else 0))"
  proof (intro sum.cong refl)
    fix k l
    assume "k \<in> {..<n}" "l \<in> {..<n}"
    have e: "(i * n + j) * n * n + (k * n + l) = ((i * n + j) * n + k) * n + l"
      by (simp add: algebra_simps)
    have "eri (((i * n + j) * n + k) * n + l) = T i j k l"
      using assms(1,4,5) \<open>k \<in> {..<n}\<close> \<open>l \<in> {..<n}\<close> unfolding s1_layout_def by simp
    moreover have "dmj (k * n + l) = (if k = l then 1 else 0)"
      using assms(2) \<open>k \<in> {..<n}\<close> \<open>l \<in> {..<n}\<close> unfolding dm_identity_def by blast
    ultimately show "eri ((i * n + j) * n * n + (k * n + l)) * dmj (k * n + l) =
        T i j k l * (if k = l then 1 else 0)"
      unfolding e by simp
  qed
  also have "\<dots> = (\<Sum>k<n. T i j k k)"
  proof (intro sum.cong refl)
    fix k
    assume "k \<in> {..<n}"
    have "(\<Sum>l<n. T i j k l * (if k = l then 1 else 0)) = (\<Sum>l<n. if k = l then T i j k l else 0)"
      by (intro sum.cong refl) simp
    also have "\<dots> = T i j k k"
      using \<open>k \<in> {..<n}\<close> by simp
    finally show "(\<Sum>l<n. T i j k l * (if k = l then 1 else 0)) = T i j k k" .
  qed
  finally show ?thesis .
qed

theorem s1_identity_vj_witness:
  "s1_layout 3 (\<lambda>i j k l. real (((i * 3 + j) * 3 + k) * 3 + l)) (\<lambda>p. real p)
   \<and> dm_identity 3 (\<lambda>p. if p = 0 \<or> p = 4 \<or> p = 8 then 1 else 0)
   \<and> valid_sched (3 * 3) [[0..<3 * 3]] \<and> (1::nat) < 3 \<and> (2::nat) < 3
   \<and> fst (CVHFnrs1_incore_drv [[0..<3 * 3]] (\<lambda>p. real p)
           (\<lambda>p. if p = 0 \<or> p = 4 \<or> p = 8 then 1 else 0) (\<lambda>p. 9)
           (\<lambda>p. 2) (\<lambda>p. 9) 3 CVHFnrs1_kl_s1ij CVHFnrs1_jk_s1il) (1 * 3 + 2) = 147"
proof -
  have a: "s1_layout 3 (\<lambda>i j k l. real (((i * 3 + j) * 3 + k) * 3 + l)) (\<lambda>p. real p)"
    by (simp add: s1_layout_def)
  have b: "dm_identity 3 (\<lambda>p. if p = 0 \<or> p = 4 \<or> p = 8 then 1 else 0)"
    by (simp add: dm_identity_def lessThan_nat_numeral lessThan_Suc)
  have c: "valid_sched (3 * 3) [[0..<3 * 3]]"
    by (simp add: valid_sched_def)
  have "(\<Sum>k<(3::nat). real (((1 * 3 + 2) * 3 + k) * 3 + k)) = 147"
    by (simp add: lessThan_nat_numeral lessThan_Suc)
  then show ?thesis
    using a b c s1_identity_vj [OF a b c, of 1 2 "\<lambda>p. 9" "\<lambda>p. 2" "\<lambda>p. 9" CVHFnrs1_jk_s1il]
    by simp
qed

section \<open>The frame of one call of \<^verbatim>\<open>CVHFnrs8_jk_s1il_o0\<close>\<close>

text \<open>
  C10.  One call of \<^verbatim>\<open>CVHFnrs8_jk_s1il_o0\<close> on an outer pair inside the matrix
  (\<open>ic, jc < nao\<close>) leaves \<^verbatim>\<open>vk[a*nao+b]\<close> as it was whenever neither the row \<open>a\<close> nor
  the column \<open>b\<close> is \<open>ic\<close> or \<open>jc\<close>.
\<close>

theorem s8_jk_s1il_frame:
  assumes "ic < nao" and "jc < nao" and "b < nao"
    and "a \<noteq> ic" and "a \<noteq> jc" and "b \<noteq> ic" and "b \<noteq> jc"
  shows "CVHFnrs8_jk_s1il_o0 eri dm vk nao ic jc (a * nao + b) = vk (a * nao + b)"
proof -
  have z: "kcon nao dm e (a * nao + b) x y z w = 0"
    if "w < nao" and "x = ic \<or> x = jc \<or> w = ic \<or> w = jc" for e x y z w
    using that assms(3-7) by (intro kcon_other) auto
  consider "jc < ic" | "ic = jc" | "ic < jc" by linarith
  then show ?thesis
  proof cases
    case 1
    have "(\<Sum>k = 0..<ic.
        (\<Sum>l = 0..<k.
           kcon nao dm (eri (tri k l)) (a * nao + b) jc ic k l + kcon nao dm (eri (tri k l)) (a * nao + b) ic jc k l +
           kcon nao dm (eri (tri k l)) (a * nao + b) jc ic l k + kcon nao dm (eri (tri k l)) (a * nao + b) ic jc l k +
           kcon nao dm (eri (tri k l)) (a * nao + b) l k ic jc + kcon nao dm (eri (tri k l)) (a * nao + b) k l ic jc +
           kcon nao dm (eri (tri k l)) (a * nao + b) l k jc ic + kcon nao dm (eri (tri k l)) (a * nao + b) k l jc ic) +
        (kcon nao dm (eri (tri k k)) (a * nao + b) jc ic k k + kcon nao dm (eri (tri k k)) (a * nao + b) ic jc k k +
         kcon nao dm (eri (tri k k)) (a * nao + b) k k ic jc + kcon nao dm (eri (tri k k)) (a * nao + b) k k jc ic)) = 0"
      using assms(1,2) by (intro sum.neutral ballI) (simp add: z)
    moreover have "(\<Sum>l = 0..<jc.
        kcon nao dm (eri (tri ic l)) (a * nao + b) jc ic ic l + kcon nao dm (eri (tri ic l)) (a * nao + b) ic jc ic l +
        kcon nao dm (eri (tri ic l)) (a * nao + b) jc ic l ic + kcon nao dm (eri (tri ic l)) (a * nao + b) ic jc l ic +
        kcon nao dm (eri (tri ic l)) (a * nao + b) l ic ic jc + kcon nao dm (eri (tri ic l)) (a * nao + b) ic l ic jc +
        kcon nao dm (eri (tri ic l)) (a * nao + b) l ic jc ic + kcon nao dm (eri (tri ic l)) (a * nao + b) ic l jc ic) = 0"
      using assms(1,2) by (intro sum.neutral ballI) (simp add: z)
    ultimately show ?thesis
      using assms(1,2) by (simp add: s8_jk_s1il_gt [OF 1] z)
  next
    case 2
    have "(\<Sum>k = 0..<ic.
        (\<Sum>l = 0..<k.
           kcon nao dm (eri (tri k l)) (a * nao + b) ic ic k l + kcon nao dm (eri (tri k l)) (a * nao + b) ic ic l k +
           kcon nao dm (eri (tri k l)) (a * nao + b) l k ic ic + kcon nao dm (eri (tri k l)) (a * nao + b) k l ic ic) +
        (kcon nao dm (eri (tri k k)) (a * nao + b) ic ic k k + kcon nao dm (eri (tri k k)) (a * nao + b) k k ic ic)) = 0"
      using assms(1) by (intro sum.neutral ballI) (simp add: z)
    moreover have "(\<Sum>l = 0..<ic.
        kcon nao dm (eri (tri ic l)) (a * nao + b) ic ic ic l + kcon nao dm (eri (tri ic l)) (a * nao + b) ic ic l ic +
        kcon nao dm (eri (tri ic l)) (a * nao + b) l ic ic ic + kcon nao dm (eri (tri ic l)) (a * nao + b) ic l ic ic) = 0"
      using assms(1) by (intro sum.neutral ballI) (simp add: z)
    ultimately show ?thesis
      using assms(1) unfolding 2 [symmetric] by (simp add: s8_jk_s1il_eq z)
  next
    case 3
    then show ?thesis by (simp add: CVHFnrs8_jk_s1il_o0_def)
  qed
qed

theorem s8_jk_s1il_frame_witness:
  "(2::nat) < 3 \<and> (0::nat) < 3 \<and> (1::nat) < 3
   \<and> (1::nat) \<noteq> 2 \<and> (1::nat) \<noteq> 0
   \<and> CVHFnrs8_jk_s1il_o0 (\<lambda>p. real p + 1) (\<lambda>p. 2 * real p + 3) (\<lambda>p. 7 - real p) 3 2 0
         (1 * 3 + 1) = 3"
  using s8_jk_s1il_frame [of 2 3 0 1 1 "\<lambda>p. real p + 1" "\<lambda>p. 2 * real p + 3" "\<lambda>p. 7 - real p"]
  by simp

section \<open>The unfolding recovers the triangular pair\<close>

text \<open>
  C5.  Let the double operations of \<^verbatim>\<open>(int)(sqrt(2*idx+.25) - .5 + 1e-7)\<close> round their
  exact results in any way that keeps the relative error of each operation within
  \<open>2\<^sup>-\<^sup>5\<^sup>3\<close> (IEEE double, round to nearest; exact arithmetic is the case without
  error), and let \<open>n\<close> be such that \<^verbatim>\<open>n*(n+1)\<close> fits the C \<^verbatim>\<open>int\<close> in which the drivers
  compute \<^verbatim>\<open>npair\<close>.  Then for every \<open>idx < n(n+1)/2\<close> the unfolding yields \<open>ic\<close> and
  \<open>jc\<close> with \<open>ic(ic+1)/2 + jc = idx\<close> and \<open>jc \<le> ic < n\<close>, and no other pair \<open>j \<le> i\<close> has
  the compact index \<open>idx\<close>.
\<close>

theorem tri_unfold_recovers_pair:
  assumes "standard_model rnd" and "n * (n + 1) \<le> 2147483647" and "idx < npair_of n"
  shows "let ic = tri_unfold_fl rnd idx; jc = idx - ic * (ic + 1) div 2
         in ic * (ic + 1) div 2 + jc = idx \<and> jc \<le> ic \<and> ic < n
            \<and> (\<forall>i j. j \<le> i \<and> i * (i + 1) div 2 + j = idx \<longrightarrow> i = ic \<and> j = jc)"
proof -
  obtain i j where ij: "i < n" "j \<le> i" "idx = tri i j"
    using tri_decomp [OF assms(3)] by blast
  have "n \<le> 46340" using assms(2) by (rule int_safe_bound)
  then have "i \<le> 46340" using ij(1) by simp
  then have ic: "tri_unfold_fl rnd idx = i"
    unfolding ij(3) by (rule unfold_fl_tri [OF assms(1) ij(2)])
  have jc: "idx - i * (i + 1) div 2 = j"
    unfolding ij(3) by (simp add: tri_def)
  have "i' = i \<and> j' = j" if "j' \<le> i'" "i' * (i' + 1) div 2 + j' = idx" for i' j'
    using tri_inj [of i' j' i j] that ij(2,3) by (simp add: tri_def)
  then have "\<forall>i' j'. j' \<le> i' \<and> i' * (i' + 1) div 2 + j' = idx \<longrightarrow> i' = i \<and> j' = j"
    by blast
  moreover have "i * (i + 1) div 2 + j = idx"
    unfolding ij(3) tri_def ..
  ultimately show ?thesis
    unfolding ic jc Let_def using ij(1,2) by blast
qed

theorem tri_unfold_recovers_pair_witness:
  "standard_model (\<lambda>x. x) \<and> (3::nat) * (3 + 1) \<le> 2147483647 \<and> 4 < npair_of 3
   \<and> tri_unfold_fl (\<lambda>x. x) 4 = 2 \<and> 4 - tri_unfold_fl (\<lambda>x. x) 4 * (tri_unfold_fl (\<lambda>x. x) 4 + 1) div 2 = 1"
proof -
  have a: "standard_model (\<lambda>x. x)" by (simp add: standard_model_def)
  have b: "(3::nat) * (3 + 1) \<le> 2147483647" by simp
  have c: "4 < npair_of 3" by (simp add: npair_of_def)
  have d: "(1::nat) \<le> 2 \<and> (2::nat) * (2 + 1) div 2 + 1 = 4" by simp
  have h: "\<forall>i j. j \<le> i \<and> i * (i + 1) div 2 + j = 4 \<longrightarrow>
      i = tri_unfold_fl (\<lambda>x. x) 4 \<and>
      j = 4 - tri_unfold_fl (\<lambda>x. x) 4 * (tri_unfold_fl (\<lambda>x. x) 4 + 1) div 2"
    using tri_unfold_recovers_pair [OF a b c] unfolding Let_def by (elim conjE)
  have e: "2 = tri_unfold_fl (\<lambda>x. x) 4 \<and>
      1 = 4 - tri_unfold_fl (\<lambda>x. x) 4 * (tri_unfold_fl (\<lambda>x. x) 4 + 1) div 2"
    by (rule h [rule_format, of 1 2, OF d])
  show ?thesis
    by (intro conjI a b c e [THEN conjunct1, symmetric] e [THEN conjunct2, symmetric])
qed

section \<open>The Coulomb matrix of the eight-fold driver\<close>

text \<open>
  C1.  For a dense tensor \<open>T\<close> with the \<^verbatim>\<open>s8\<close> symmetry in the compact \<^verbatim>\<open>s8\<close> layout and
  any density matrix, \<^verbatim>\<open>CVHFnrs8_incore_drv\<close> with the J kernel \<^verbatim>\<open>CVHFnrs8_ij_s2kl\<close>
  leaves the dense contraction \<open>\<Sum>k l. T i j k l * dm[k,l]\<close> in \<^verbatim>\<open>vj[i*n+j]\<close> for every
  \<open>j \<le> i < n\<close>, under every schedule and whatever the K kernel is; \<open>n\<close> is any size for
  which the driver's \<^verbatim>\<open>int npair = n*(n+1)/2\<close> does not overflow.
\<close>

theorem s8_vj_is_einsum:
  assumes "n * (n + 1) \<le> 2147483647" and "s8_symmetric n T" and "s8_layout n T eri"
    and "valid_sched (npair_of n) sched" and "j \<le> i" and "i < n"
  shows "fst (CVHFnrs8_incore_drv sched eri dmj vj dmk vk n CVHFnrs8_ij_s2kl fvk) (i * n + j) =
    einsum_J n T dmj i j"
proof -
  have acc: "accumulating CVHFnrs8_ij_s2kl"
    by (rule kernels_accumulating) (simp add: kernels_def)
  have p: "i * n + j < n * n"
    using assms(5,6) by (intro cell_less) simp_all
  have n: "n \<le> 46340" using assms(1) by (rule int_safe_bound)
  have call: "CVHFnrs8_ij_s2kl (ptr_add eri (tri a b * (tri a b + 1) div 2)) dmj zeros n
        (tri_unfold_i (tri a b)) (tri a b - tri_unfold_i (tri a b) * (tri_unfold_i (tri a b) + 1) div 2)
        (i * n + j) =
      (\<Sum>k<a. \<Sum>l<Suc k. jpair n T dmj (i * n + j) a b k l + jpair n T dmj (i * n + j) k l a b) +
      (\<Sum>l<b. jpair n T dmj (i * n + j) a b a l + jpair n T dmj (i * n + j) a l a b) +
      jpair n T dmj (i * n + j) a b a b"
    if "a < n" "b < Suc a" for a b
  proof -
    have "b \<le> a" using that(2) by simp
    moreover have "a \<le> 46340" using that(1) n by simp
    ultimately have u: "tri_unfold_i (tri a b) = a" by (rule tri_unfold_i_tri)
    show ?thesis
      unfolding u tri_offset(1) using assms(2,3) that(1) \<open>b \<le> a\<close> by (rule s8_ij_s2kl_call)
  qed
  have "fst (CVHFnrs8_incore_drv sched eri dmj vj dmk vk n CVHFnrs8_ij_s2kl fvk) (i * n + j) =
      (\<Sum>a<n. \<Sum>b<Suc a.
        CVHFnrs8_ij_s2kl (ptr_add eri (tri a b * (tri a b + 1) div 2)) dmj zeros n
          (tri_unfold_i (tri a b)) (tri a b - tri_unfold_i (tri a b) * (tri_unfold_i (tri a b) + 1) div 2)
          (i * n + j))"
    unfolding nrs8_drv_fst [OF acc assms(4) p] sum_npair ..
  also have "\<dots> = (\<Sum>a<n. \<Sum>b<Suc a.
      (\<Sum>k<a. \<Sum>l<Suc k. jpair n T dmj (i * n + j) a b k l + jpair n T dmj (i * n + j) k l a b) +
      (\<Sum>l<b. jpair n T dmj (i * n + j) a b a l + jpair n T dmj (i * n + j) a l a b) +
      jpair n T dmj (i * n + j) a b a b)"
    by (intro sum.cong refl call) simp_all
  also have "\<dots> = (\<Sum>a<n. \<Sum>b<Suc a. \<Sum>k<n. \<Sum>l<Suc k. jpair n T dmj (i * n + j) a b k l)"
    by (rule sum_pairs_sym2 [symmetric])
  also have "\<dots> = einsum_J n T dmj i j"
    using assms(2,6,5) by (rule jpair_total)
  finally show ?thesis .
qed

theorem s8_vj_is_einsum_witness:
  "(2::nat) * (2 + 1) \<le> 2147483647
   \<and> s8_symmetric 2 (\<lambda>i j k l. real ((i + j + 1) * (k + l + 1)))
   \<and> s8_layout 2 (\<lambda>i j k l. real ((i + j + 1) * (k + l + 1))) (\<lambda>p. [1, 2, 4, 3, 6, 9] ! p)
   \<and> valid_sched (npair_of 2) [[2], [0, 1]] \<and> (0::nat) \<le> 1 \<and> (1::nat) < 2
   \<and> fst (CVHFnrs8_incore_drv [[2], [0, 1]] (\<lambda>p. [1, 2, 4, 3, 6, 9] ! p) (\<lambda>p. real p + 1) (\<lambda>p. 5)
          (\<lambda>p. real p + 1) (\<lambda>p. 5) 2 CVHFnrs8_ij_s2kl CVHFnrs8_jk_s1il) (1 * 2 + 0) = 46"
proof -
  have a: "(2::nat) * (2 + 1) \<le> 2147483647" by simp
  have b: "s8_symmetric 2 (\<lambda>i j k l. real ((i + j + 1) * (k + l + 1)))"
    by (simp add: s8_symmetric_def algebra_simps)
  have c: "s8_layout 2 (\<lambda>i j k l. real ((i + j + 1) * (k + l + 1))) (\<lambda>p. [1, 2, 4, 3, 6, 9] ! p)"
    by (simp add: s8_layout_def tri_def lessThan_nat_numeral lessThan_Suc atMost_Suc)
  have d: "valid_sched (npair_of 2) [[2], [0, 1]]" by code_simp
  have e: "einsum_J 2 (\<lambda>i j k l. real ((i + j + 1) * (k + l + 1))) (\<lambda>p. real p + 1) 1 0 = 46"
    by (simp add: einsum_J_def lessThan_nat_numeral lessThan_Suc)
  show ?thesis
    using a b c d e
      s8_vj_is_einsum [OF a b c d, of 0 1 "\<lambda>p. real p + 1" "\<lambda>p. 5" "\<lambda>p. real p + 1" "\<lambda>p. 5"
        CVHFnrs8_jk_s1il]
    by simp
qed

section \<open>The exchange matrix of the eight-fold driver\<close>

text \<open>
  C2.  For a dense tensor \<open>T\<close> with the \<^verbatim>\<open>s8\<close> symmetry in the compact \<^verbatim>\<open>s8\<close> layout and
  any density matrix, \<^verbatim>\<open>CVHFnrs8_incore_drv\<close> with the K kernel \<^verbatim>\<open>CVHFnrs8_jk_s1il\<close>
  leaves the dense contraction \<open>\<Sum>j k. T i j k l * dm[j,k]\<close> in \<^verbatim>\<open>vk[i*n+l]\<close> for all
  \<open>i, l < n\<close>: every stored entry is added once for each index tuple it stands for,
  also on the diagonals.
\<close>

theorem s8_vk_is_einsum:
  assumes "n * (n + 1) \<le> 2147483647" and "s8_symmetric n T" and "s8_layout n T eri"
    and "valid_sched (npair_of n) sched" and "i < n" and "l < n"
  shows "snd (CVHFnrs8_incore_drv sched eri dmj vj dmk vk n fvj CVHFnrs8_jk_s1il) (i * n + l) =
    einsum_K n T dmk i l"
proof -
  have p: "i * n + l < n * n"
    using assms(5,6) by (rule cell_less)
  show ?thesis
    unfolding s8_vk_sum [OF assms(1-4) p] using assms(5,6) by (rule kten_total)
qed

theorem s8_vk_is_einsum_witness:
  "(2::nat) * (2 + 1) \<le> 2147483647
   \<and> s8_symmetric 2 (\<lambda>i j k l. real ((i + j + 1) * (k + l + 1)))
   \<and> s8_layout 2 (\<lambda>i j k l. real ((i + j + 1) * (k + l + 1))) (\<lambda>p. [1, 2, 4, 3, 6, 9] ! p)
   \<and> valid_sched (npair_of 2) [[2], [0, 1]] \<and> (0::nat) < 2 \<and> (1::nat) < 2
   \<and> snd (CVHFnrs8_incore_drv [[2], [0, 1]] (\<lambda>p. [1, 2, 4, 3, 6, 9] ! p) (\<lambda>p. real p + 1) (\<lambda>p. 5)
          (\<lambda>p. real p + 1) (\<lambda>p. 5) 2 CVHFnrs8_ij_s2kl CVHFnrs8_jk_s1il) (0 * 2 + 1) = 44"
proof -
  have a: "(2::nat) * (2 + 1) \<le> 2147483647" by simp
  have b: "s8_symmetric 2 (\<lambda>i j k l. real ((i + j + 1) * (k + l + 1)))"
    by (simp add: s8_symmetric_def algebra_simps)
  have c: "s8_layout 2 (\<lambda>i j k l. real ((i + j + 1) * (k + l + 1))) (\<lambda>p. [1, 2, 4, 3, 6, 9] ! p)"
    by (simp add: s8_layout_def tri_def lessThan_nat_numeral lessThan_Suc atMost_Suc)
  have d: "valid_sched (npair_of 2) [[2], [0, 1]]" by code_simp
  have e: "einsum_K 2 (\<lambda>i j k l. real ((i + j + 1) * (k + l + 1))) (\<lambda>p. real p + 1) 0 1 = 44"
    by (simp add: einsum_K_def lessThan_nat_numeral lessThan_Suc)
  show ?thesis
    using a b c d e
      s8_vk_is_einsum [OF a b c d, of 0 1 "\<lambda>p. real p + 1" "\<lambda>p. 5" "\<lambda>p. real p + 1" "\<lambda>p. 5"
        CVHFnrs8_ij_s2kl]
    by simp
qed

section \<open>The output of the triangular exchange kernel\<close>

text \<open>
  With the K kernel \<^verbatim>\<open>CVHFnrs8_jk_s2il\<close> the output is not its own mirror image.  For
  \<open>n = 2\<close>, the \<^verbatim>\<open>s8\<close>-symmetric tensor \<open>T i j k l = (i+j+1) * (k+l+1)\<close> in compact storage and
  the symmetric density matrix \<open>[[1, 2], [2, 5]]\<close>, the driver leaves \<open>46\<close> in \<^verbatim>\<open>vk[1*2+0]\<close>
  and \<open>0\<close> in \<^verbatim>\<open>vk[0*2+1]\<close>: the kernel stores below and on the diagonal only.
\<close>

theorem s2il_output_not_symmetric:
  "(0::nat) < 2
   \<and> s8_symmetric 2 (\<lambda>i j k l. real ((i + j + 1) * (k + l + 1)))
   \<and> s8_layout 2 (\<lambda>i j k l. real ((i + j + 1) * (k + l + 1))) (\<lambda>p. [1, 2, 4, 3, 6, 9] ! p)
   \<and> dm_symmetric 2 (\<lambda>p. [1, 2, 2, 5] ! p)
   \<and> valid_sched (npair_of 2) [[0, 1, 2]]
   \<and> snd (CVHFnrs8_incore_drv [[0, 1, 2]] (\<lambda>p. [1, 2, 4, 3, 6, 9] ! p) (\<lambda>p. [1, 2, 2, 5] ! p)
          zeros (\<lambda>p. [1, 2, 2, 5] ! p) zeros 2 CVHFnrs8_ij_s2kl CVHFnrs8_jk_s2il) (0 * 2 + 1) = 0
   \<and> snd (CVHFnrs8_incore_drv [[0, 1, 2]] (\<lambda>p. [1, 2, 4, 3, 6, 9] ! p) (\<lambda>p. [1, 2, 2, 5] ! p)
          zeros (\<lambda>p. [1, 2, 2, 5] ! p) zeros 2 CVHFnrs8_ij_s2kl CVHFnrs8_jk_s2il) (1 * 2 + 0) = 46
   \<and> snd (CVHFnrs8_incore_drv [[0, 1, 2]] (\<lambda>p. [1, 2, 4, 3, 6, 9] ! p) (\<lambda>p. [1, 2, 2, 5] ! p)
          zeros (\<lambda>p. [1, 2, 2, 5] ! p) zeros 2 CVHFnrs8_ij_s2kl CVHFnrs8_jk_s2il) (0 * 2 + 1) \<noteq>
       snd (CVHFnrs8_incore_drv [[0, 1, 2]] (\<lambda>p. [1, 2, 4, 3, 6, 9] ! p) (\<lambda>p. [1, 2, 2, 5] ! p)
          zeros (\<lambda>p. [1, 2, 2, 5] ! p) zeros 2 CVHFnrs8_ij_s2kl CVHFnrs8_jk_s2il) (1 * 2 + 0)"
proof -
  have a: "(2::nat) * (2 + 1) \<le> 2147483647" by simp
  have b: "s8_symmetric 2 (\<lambda>i j k l. real ((i + j + 1) * (k + l + 1)))"
    by (simp add: s8_symmetric_def algebra_simps)
  have c: "s8_layout 2 (\<lambda>i j k l. real ((i + j + 1) * (k + l + 1))) (\<lambda>p. [1, 2, 4, 3, 6, 9] ! p)"
    by (simp add: s8_layout_def tri_def lessThan_nat_numeral lessThan_Suc atMost_Suc)
  have s: "dm_symmetric 2 (\<lambda>p. [1, 2, 2, 5] ! p)"
    by (simp add: dm_symmetric_def lessThan_nat_numeral lessThan_Suc)
  have d: "valid_sched (npair_of 2) [[0, 1, 2]]" by code_simp
  have e: "einsum_K 2 (\<lambda>i j k l. real ((i + j + 1) * (k + l + 1))) (\<lambda>p. [1, 2, 2, 5] ! p) 1 0 = 46"
    by (simp add: einsum_K_def lessThan_nat_numeral lessThan_Suc)
  have f: "(0::nat) \<le> 1" "(1::nat) < 2" by simp_all
  have up: "snd (CVHFnrs8_incore_drv [[0, 1, 2]] (\<lambda>p. [1, 2, 4, 3, 6, 9] ! p) (\<lambda>p. [1, 2, 2, 5] ! p)
          zeros (\<lambda>p. [1, 2, 2, 5] ! p) zeros 2 CVHFnrs8_ij_s2kl CVHFnrs8_jk_s2il) (0 * 2 + 1) = 0"
    using d by (rule s2il_upper_untouched)
  have lo: "snd (CVHFnrs8_incore_drv [[0, 1, 2]] (\<lambda>p. [1, 2, 4, 3, 6, 9] ! p) (\<lambda>p. [1, 2, 2, 5] ! p)
          zeros (\<lambda>p. [1, 2, 2, 5] ! p) zeros 2 CVHFnrs8_ij_s2kl CVHFnrs8_jk_s2il) (1 * 2 + 0) = 46"
    unfolding s8_vk_s2il_einsum [OF a b c d f] by (rule e)
  have ne: "snd (CVHFnrs8_incore_drv [[0, 1, 2]] (\<lambda>p. [1, 2, 4, 3, 6, 9] ! p) (\<lambda>p. [1, 2, 2, 5] ! p)
          zeros (\<lambda>p. [1, 2, 2, 5] ! p) zeros 2 CVHFnrs8_ij_s2kl CVHFnrs8_jk_s2il) (0 * 2 + 1) \<noteq>
       snd (CVHFnrs8_incore_drv [[0, 1, 2]] (\<lambda>p. [1, 2, 4, 3, 6, 9] ! p) (\<lambda>p. [1, 2, 2, 5] ! p)
          zeros (\<lambda>p. [1, 2, 2, 5] ! p) zeros 2 CVHFnrs8_ij_s2kl CVHFnrs8_jk_s2il) (1 * 2 + 0)"
    unfolding up lo by simp
  show ?thesis
    by (intro conjI b c s d up lo ne) simp
qed

text \<open>
  C3.  For a dense tensor \<open>T\<close> with the \<^verbatim>\<open>s8\<close> symmetry in the compact \<^verbatim>\<open>s8\<close> layout and a
  symmetric density matrix, \<^verbatim>\<open>CVHFnrs8_incore_drv\<close> with the K kernel \<^verbatim>\<open>CVHFnrs8_jk_s2il\<close>
  leaves, after full accumulation, the exchange matrix \<open>K[i,l] = \<Sum>j k. T i j k l * dm[j,k]\<close> in
  the lower triangle of \<^verbatim>\<open>vk\<close>, diagonal included: \<^verbatim>\<open>vk[i*n+l]\<close> is \<open>K[i,l]\<close> for \<open>l \<le> i < n\<close>.
  That matrix is symmetric, \<open>K[i,l] = K[l,i]\<close>, so the lower triangle determines it; the
  cells above the diagonal are left to the caller to fill by mirroring.
\<close>

theorem s8_vk_s2il_lower_triangle:
  assumes "n * (n + 1) \<le> 2147483647" and "s8_symmetric n T" and "s8_layout n T eri"
    and "dm_symmetric n dmk" and "valid_sched (npair_of n) sched" and "l \<le> i" and "i < n"
  shows "snd (CVHFnrs8_incore_drv sched eri dmj vj dmk vk n fvj CVHFnrs8_jk_s2il) (i * n + l) =
      einsum_K n T dmk i l
    \<and> einsum_K n T dmk i l = einsum_K n T dmk l i"
proof -
  have l: "l < n" using assms(6,7) by simp
  have "snd (CVHFnrs8_incore_drv sched eri dmj vj dmk vk n fvj CVHFnrs8_jk_s2il) (i * n + l) =
      einsum_K n T dmk i l"
    using assms(1,2,3,5,6,7) by (rule s8_vk_s2il_einsum)
  moreover have "einsum_K n T dmk i l = einsum_K n T dmk l i"
    using assms(2,4,7) l by (rule einsum_K_symmetric)
  ultimately show ?thesis ..
qed

theorem s8_vk_s2il_lower_triangle_witness:
  "(2::nat) * (2 + 1) \<le> 2147483647
   \<and> s8_symmetric 2 (\<lambda>i j k l. real ((i + j + 1) * (k + l + 1)))
   \<and> s8_layout 2 (\<lambda>i j k l. real ((i + j + 1) * (k + l + 1))) (\<lambda>p. [1, 2, 4, 3, 6, 9] ! p)
   \<and> dm_symmetric 2 (\<lambda>p. [1, 2, 2, 5] ! p)
   \<and> valid_sched (npair_of 2) [[2], [0, 1]] \<and> (0::nat) \<le> 1 \<and> (1::nat) < 2
   \<and> snd (CVHFnrs8_incore_drv [[2], [0, 1]] (\<lambda>p. [1, 2, 4, 3, 6, 9] ! p) (\<lambda>p. [1, 2, 2, 5] ! p)
          (\<lambda>p. 5) (\<lambda>p. [1, 2, 2, 5] ! p) (\<lambda>p. 5) 2 CVHFnrs8_ij_s2kl CVHFnrs8_jk_s2il) (1 * 2 + 0) = 46
   \<and> einsum_K 2 (\<lambda>i j k l. real ((i + j + 1) * (k + l + 1))) (\<lambda>p. [1, 2, 2, 5] ! p) 0 1 = 46"
proof -
  have a: "(2::nat) * (2 + 1) \<le> 2147483647" by simp
  have b: "s8_symmetric 2 (\<lambda>i j k l. real ((i + j + 1) * (k + l + 1)))"
    by (simp add: s8_symmetric_def algebra_simps)
  have c: "s8_layout 2 (\<lambda>i j k l. real ((i + j + 1) * (k + l + 1))) (\<lambda>p. [1, 2, 4, 3, 6, 9] ! p)"
    by (simp add: s8_layout_def tri_def lessThan_nat_numeral lessThan_Suc atMost_Suc)
  have s: "dm_symmetric 2 (\<lambda>p. [1, 2, 2, 5] ! p)"
    by (simp add: dm_symmetric_def lessThan_nat_numeral lessThan_Suc)
  have d: "valid_sched (npair_of 2) [[2], [0, 1]]" by code_simp
  have e: "einsum_K 2 (\<lambda>i j k l. real ((i + j + 1) * (k + l + 1))) (\<lambda>p. [1, 2, 2, 5] ! p) 1 0 = 46"
    by (simp add: einsum_K_def lessThan_nat_numeral lessThan_Suc)
  have f: "(0::nat) \<le> 1" "(1::nat) < 2" by simp_all
  show ?thesis
    using a b c s d e
      s8_vk_s2il_lower_triangle [OF a b c s d f, of "\<lambda>p. [1, 2, 2, 5] ! p" "\<lambda>p. 5" "\<lambda>p. 5"
        CVHFnrs8_ij_s2kl]
    by simp
qed

end
